theory Spec2Isabelle
  imports Complex_Main "HOL-Library.Log_Nat"
begin

section \<open>Exceptions\<close>

text \<open>
  The exceptions the modelled code raises or catches: \<open>queue.Full\<close> and \<open>queue.Empty\<close>
  of the standard queue, \<open>KeyError\<close> of a dictionary lookup, \<open>ValueError\<close> of
  \<open>str.format\<close> on a malformed format string, \<open>TypeError\<close> of a call with the wrong
  keywords or of \<open>**\<close> on something that is no mapping, and \<open>UnicodeDecodeError\<close> of
  \<open>bytes.decode\<close>.
\<close>

datatype exn = Full | Empty | KeyError | ValueError | TypeError | UnicodeDecodeError

section \<open>The bounded queue of the frame relay (sensor.py)\<close>

text \<open>
  \<open>queue.Queue(maxsize)\<close> as the code uses it: a FIFO list of items and the capacity.
  \<open>put_nowait\<close> raises \<open>Full\<close> when \<open>maxsize > 0\<close> and the queue holds \<open>maxsize\<close>
  items or more (a \<open>maxsize\<close> of zero or less means unbounded); \<open>get_nowait\<close> raises
  \<open>Empty\<close> on an empty queue and removes the oldest item otherwise.
\<close>

record 'a queue =
  maxsize :: int
  items :: "'a list"

definition Queue :: "int \<Rightarrow> 'a queue" where
  "Queue n = \<lparr>maxsize = n, items = []\<rparr>"

definition put_nowait :: "'a queue \<Rightarrow> 'a \<Rightarrow> exn + 'a queue" where
  "put_nowait q x =
     (if 0 < maxsize q \<and> maxsize q \<le> int (length (items q)) then Inl Full
      else Inr (q\<lparr>items := items q @ [x]\<rparr>))"

definition get_nowait :: "'a queue \<Rightarrow> exn + ('a \<times> 'a queue)" where
  "get_nowait q =
     (case items q of
        [] \<Rightarrow> Inl Empty
      | x # xs \<Rightarrow> Inr (x, q\<lparr>items := xs\<rparr>))"

text \<open>
  \<open>Sensor._add_image_to_carla_images_queue\<close>, with the stop event as the flag
  \<open>stop_event\<close> (read at the loop head) and the queue \<open>self._carla_images\<close> passed through:
  \<^verbatim>\<open>
    while not self._stop_event.is_set():
        try:
            self._carla_images.put_nowait(image)
            break
        except Full:
            try:
                self._carla_images.get_nowait()
            except Empty:
                pass
  \<close>
  The loop is a recursive function. Every exception \<open>put_nowait\<close> can raise is \<open>Full\<close>
  and every exception \<open>get_nowait\<close> can raise is \<open>Empty\<close>, so both handlers catch all
  of them.
\<close>

function add_image_to_carla_images_queue :: "bool \<Rightarrow> 'a \<Rightarrow> 'a queue \<Rightarrow> 'a queue" where
  "add_image_to_carla_images_queue stop_event img q =
     (if stop_event then q
      else (case put_nowait q img of
              Inr q' \<Rightarrow> q'
            | Inl e \<Rightarrow>
                (case get_nowait q of
                   Inr (old, q') \<Rightarrow> add_image_to_carla_images_queue stop_event img q'
                 | Inl e' \<Rightarrow> add_image_to_carla_images_queue stop_event img q)))"
  by pat_completeness auto
termination
proof (relation "measure (\<lambda>(s, i, q). length (items q))")
  show "wf (measure (\<lambda>(s, i, q). length (items (q :: 'a queue))))" by simp
next
  fix stop_event :: bool and img :: 'a and q :: "'a queue" and e x2 old q'
  assume "put_nowait q img = Inl e" and "get_nowait q = Inr x2" and "(old, q') = x2"
  then show "((stop_event, img, q'), (stop_event, img, q))
               \<in> measure (\<lambda>(s, i, q). length (items q))"
    by (auto simp: get_nowait_def split: list.splits)
next
  fix stop_event :: bool and img :: 'a and q :: "'a queue" and e e'
  assume "put_nowait q img = Inl e" and "get_nowait q = Inl e'"
  then show "((stop_event, img, q), (stop_event, img, q))
               \<in> measure (\<lambda>(s, i, q). length (items q))"
    by (auto simp: put_nowait_def get_nowait_def split: if_splits list.splits)
qed

declare add_image_to_carla_images_queue.simps [simp del]

section \<open>Control state and its derivation (controller.py, controller_gamepad.py)\<close>

text \<open>
  A Python float is an IEEE binary64 number. The model writes a float as a real number
  that denotes the double nearest to it, \<open>fl\<close> of it: a double is written by its own
  value, a literal of the source and a result of \<open>round(x, 2)\<close> by the decimal itself
  (0.16 is the double that the literal 0.16 gives). Infinities and NaN are outside the
  model; the gamepad never delivers them and no operation below produces them from
  finite values.

  \<open>expo x\<close> is the exponent of the binade of \<open>x\<close>, not below that of the subnormal
  numbers, and \<open>fl x\<close> rounds \<open>x\<close> to the nearest multiple of \<open>2 ^ (expo x - 52)\<close>, a
  tie going to the even multiple: the rounding of every arithmetic operation and of the
  reading of a decimal.
\<close>

definition round_half_even :: "real \<Rightarrow> int" where
  "round_half_even x =
     (let f = \<lfloor>x\<rfloor>; d = x - of_int f
      in if d < 1 / 2 then f else if 1 / 2 < d then f + 1 else if even f then f else f + 1)"

definition expo :: "real \<Rightarrow> int" where
  "expo x = max (- 1022)
     (if 1 \<le> \<bar>x\<bar> then bitlen \<lfloor>\<bar>x\<bar>\<rfloor> - 1 else - bitlen (\<lceil>1 / \<bar>x\<bar>\<rceil> - 1))"

definition fl :: "real \<Rightarrow> real" where
  "fl x = of_int (round_half_even (x / 2 powi (expo x - 52))) * 2 powi (expo x - 52)"

text \<open>
  \<open>round(x, ndigits)\<close> on a float: the exact value of the double \<open>x\<close> is rounded to
  \<open>ndigits\<close> decimals, a tie going to the even neighbour, and the decimal found is read
  back as a double. The model returns the decimal, which denotes that double.
\<close>

definition py_round :: "real \<Rightarrow> nat \<Rightarrow> real" where
  "py_round x ndigits = of_int (round_half_even (fl x * 10 ^ ndigits)) / 10 ^ ndigits"

record ControllerState =
  throttle :: real
  brake :: real
  steer :: real
  hand_brake :: bool
  reverse :: bool
  reset :: bool

text \<open>
  \<^verbatim>\<open>
    def handle_steer_deadzone(steer) -> float:
        if -0.16 <= steer <= 0.16:
            steer = 0.0
        return steer
  \<close>
\<close>

definition handle_steer_deadzone :: "real \<Rightarrow> real" where
  "handle_steer_deadzone s = (if - 0.16 \<le> s \<and> s \<le> 0.16 then 0.0 else s)"

text \<open>
  \<open>RawControllerState\<close>: the three dictionaries of the event handler. An axis maps to
  \<open>None\<close> (Python's \<open>None\<close> is the inner \<open>None\<close>) until its first event.
\<close>

record RawControllerState =
  axis_data :: "int \<rightharpoonup> real option"
  button_data :: "int \<rightharpoonup> bool"
  hat_data :: "int \<rightharpoonup> int \<times> int"

text \<open>The joystick events of pygame that \<open>handle_event\<close> tells apart; \<open>OTHER\<close> is any other event type.\<close>

datatype event =
    JOYAXISMOTION int real
  | JOYBUTTONDOWN int
  | JOYBUTTONUP int
  | JOYHATMOTION int "int \<times> int"
  | OTHER

text \<open>Subscription \<open>d[k]\<close> of a dictionary raises \<open>KeyError\<close> for a missing key.\<close>

definition getitem :: "('k \<rightharpoonup> 'v) \<Rightarrow> 'k \<Rightarrow> exn + 'v" where
  "getitem d k = (case d k of None \<Rightarrow> Inl KeyError | Some v \<Rightarrow> Inr v)"

text \<open>
  \<open>ControllerEventHandler\<close>: its dictionaries \<open>_axis_data\<close>, \<open>_button_data\<close> and
  \<open>_hat_data\<close> (fields \<open>h_axis_data\<close>, \<open>h_button_data\<close>, \<open>h_hat_data\<close>). The constructor
  fills them for the indices \<open>range(0, n)\<close> the joystick reports.
\<close>

record ControllerEventHandler =
  h_axis_data :: "int \<rightharpoonup> real option"
  h_button_data :: "int \<rightharpoonup> bool"
  h_hat_data :: "int \<rightharpoonup> int \<times> int"

definition ControllerEventHandler_init :: "int \<Rightarrow> int \<Rightarrow> int \<Rightarrow> ControllerEventHandler" where
  "ControllerEventHandler_init numaxes numbuttons numhats =
     \<lparr>h_axis_data = (\<lambda>i. if 0 \<le> i \<and> i < numaxes then Some None else None),
      h_button_data = (\<lambda>i. if 0 \<le> i \<and> i < numbuttons then Some False else None),
      h_hat_data = (\<lambda>i. if 0 \<le> i \<and> i < numhats then Some (0, 0) else None)\<rparr>"

text \<open>
  The first half of \<open>ControllerEventHandler.handle_event\<close>: the \<open>if\<close>/\<open>elif\<close> chain that
  stores the event in its dictionary. \<open>None\<close> is the early \<open>return\<close> for any other event.
\<close>

definition store_event :: "event \<Rightarrow> ControllerEventHandler \<Rightarrow> ControllerEventHandler option" where
  "store_event ev h =
     (case ev of
        JOYAXISMOTION axis v \<Rightarrow> Some (h\<lparr>h_axis_data := (h_axis_data h)(axis \<mapsto> Some (py_round v 2))\<rparr>)
      | JOYBUTTONDOWN button \<Rightarrow> Some (h\<lparr>h_button_data := (h_button_data h)(button \<mapsto> True)\<rparr>)
      | JOYBUTTONUP button \<Rightarrow> Some (h\<lparr>h_button_data := (h_button_data h)(button \<mapsto> False)\<rparr>)
      | JOYHATMOTION hat v \<Rightarrow> Some (h\<lparr>h_hat_data := (h_hat_data h)(hat \<mapsto> v)\<rparr>)
      | OTHER \<Rightarrow> None)"

text \<open>The \<open>RawControllerState\<close> the handler passes to its callback.\<close>

definition raw_controller_state :: "ControllerEventHandler \<Rightarrow> RawControllerState" where
  "raw_controller_state h =
     \<lparr>axis_data = h_axis_data h, button_data = h_button_data h, hat_data = h_hat_data h\<rparr>"

text \<open>
  \<open>_GamepadController\<close> of controller.py (the class \<open>GamepadController\<close> of
  controller_gamepad.py has the same fields): \<open>_handler\<close>, \<open>_reverse\<close>,
  \<open>_last_controller_state\<close>, and of \<open>_callback\<close> whether it is callable, which is
  all the class asks of it before calling it. The call of the callback is an output of
  the model: a step returns \<open>Inr (Some cs)\<close> when it calls \<open>self._callback(cs)\<close>,
  \<open>Inr None\<close> when it returns without calling it and \<open>Inl e\<close> when it raises \<open>e\<close>.
  The callbacks of the repository (an attribute assignment, a \<open>print\<close>) do not raise.
\<close>

record GamepadAdapter =
  a_handler :: ControllerEventHandler
  a_callback_callable :: bool
  a_reverse :: bool
  a_last_controller_state :: "ControllerState option"

definition GamepadAdapter_init :: "int \<Rightarrow> int \<Rightarrow> int \<Rightarrow> bool \<Rightarrow> GamepadAdapter" where
  "GamepadAdapter_init numaxes numbuttons numhats callable =
     \<lparr>a_handler = ControllerEventHandler_init numaxes numbuttons numhats,
      a_callback_callable = callable,
      a_reverse = False,
      a_last_controller_state = None\<rparr>"

text \<open>
  \<open>_GamepadController._handle_callback\<close> (controller.py). The dictionary reads happen
  in the order of the source; \<open>self._reverse\<close> is assigned before \<open>button_data[6]\<close> is
  read and before the callback is checked, so these two failures leave it assigned.
  \<open>x is True\<close> on a boolean is \<open>x\<close>. For a callback that is not callable the
  \<open>raise TypeError(...)\<close> statement first builds its message with
  \<open>'expected {}} to be callable but was {}'.format(...)\<close>; the lone \<open>}\<close> makes
  \<open>str.format\<close> raise \<open>ValueError\<close>, which is what leaves the method. The throttle is
  \<open>round((axis_data[5] + 1.0) / 2.0, 2)\<close>: the sum and the quotient are rounded to
  doubles, then \<open>round\<close> acts on the double.
\<close>

definition handle_callback ::
  "GamepadAdapter \<Rightarrow> RawControllerState \<Rightarrow> GamepadAdapter \<times> (exn + ControllerState)" where
  "handle_callback self controller_state =
     (case getitem (axis_data controller_state) 5 of Inl e \<Rightarrow> (self, Inl e) | Inr a5 \<Rightarrow>
     (case getitem (axis_data controller_state) 4 of Inl e \<Rightarrow> (self, Inl e) | Inr a4 \<Rightarrow>
     (case getitem (axis_data controller_state) 0 of Inl e \<Rightarrow> (self, Inl e) | Inr a0 \<Rightarrow>
     (case getitem (button_data controller_state) 0 of Inl e \<Rightarrow> (self, Inl e) | Inr hand_brake' \<Rightarrow>
     (case getitem (button_data controller_state) 11 of Inl e \<Rightarrow> (self, Inl e) | Inr select_forward \<Rightarrow>
     (case getitem (button_data controller_state) 12 of Inl e \<Rightarrow> (self, Inl e) | Inr select_reverse \<Rightarrow>
       (let self' = (if select_forward then self\<lparr>a_reverse := False\<rparr>
                     else if select_reverse then self\<lparr>a_reverse := True\<rparr>
                     else self)
        in (case getitem (button_data controller_state) 6 of Inl e \<Rightarrow> (self', Inl e) | Inr reset' \<Rightarrow>
              if \<not> a_callback_callable self' then (self', Inl ValueError)
              else (self', Inr
                \<lparr>throttle = (case a5 of Some v \<Rightarrow> py_round (fl (fl (fl v + 1) / 2)) 2 | None \<Rightarrow> 0),
                 brake = (case a4 of Some v \<Rightarrow> py_round (fl (fl (fl v + 1) / 2)) 2 | None \<Rightarrow> 0),
                 steer = handle_steer_deadzone (case a0 of Some v \<Rightarrow> py_round v 2 | None \<Rightarrow> 0),
                 hand_brake = hand_brake',
                 reverse = a_reverse self',
                 reset = reset'\<rparr>)))))))))"

text \<open>\<open>GamepadController._handle_callback\<close> of controller_gamepad.py, line for line the same method.\<close>

definition gamepad_handle_callback ::
  "GamepadAdapter \<Rightarrow> RawControllerState \<Rightarrow> GamepadAdapter \<times> (exn + ControllerState)" where
  "gamepad_handle_callback self controller_state =
     (case getitem (axis_data controller_state) 5 of Inl e \<Rightarrow> (self, Inl e) | Inr a5 \<Rightarrow>
     (case getitem (axis_data controller_state) 4 of Inl e \<Rightarrow> (self, Inl e) | Inr a4 \<Rightarrow>
     (case getitem (axis_data controller_state) 0 of Inl e \<Rightarrow> (self, Inl e) | Inr a0 \<Rightarrow>
     (case getitem (button_data controller_state) 0 of Inl e \<Rightarrow> (self, Inl e) | Inr hand_brake' \<Rightarrow>
     (case getitem (button_data controller_state) 11 of Inl e \<Rightarrow> (self, Inl e) | Inr select_forward \<Rightarrow>
     (case getitem (button_data controller_state) 12 of Inl e \<Rightarrow> (self, Inl e) | Inr select_reverse \<Rightarrow>
       (let self' = (if select_forward then self\<lparr>a_reverse := False\<rparr>
                     else if select_reverse then self\<lparr>a_reverse := True\<rparr>
                     else self)
        in (case getitem (button_data controller_state) 6 of Inl e \<Rightarrow> (self', Inl e) | Inr reset' \<Rightarrow>
              if \<not> a_callback_callable self' then (self', Inl ValueError)
              else (self', Inr
                \<lparr>throttle = (case a5 of Some v \<Rightarrow> py_round (fl (fl (fl v + 1) / 2)) 2 | None \<Rightarrow> 0),
                 brake = (case a4 of Some v \<Rightarrow> py_round (fl (fl (fl v + 1) / 2)) 2 | None \<Rightarrow> 0),
                 steer = handle_steer_deadzone (case a0 of Some v \<Rightarrow> py_round v 2 | None \<Rightarrow> 0),
                 hand_brake = hand_brake',
                 reverse = a_reverse self',
                 reset = reset'\<rparr>)))))))))"

text \<open>
  \<open>_GamepadController._callback_wrapper\<close>:
  \<^verbatim>\<open>
    controller_state = self._handle_callback(raw_controller_state)
    if controller_state == self._last_controller_state:
        return
    self._callback(controller_state)
    self._last_controller_state = controller_state
  \<close>
\<close>

definition callback_wrapper ::
  "GamepadAdapter \<Rightarrow> RawControllerState \<Rightarrow> GamepadAdapter \<times> (exn + ControllerState option)" where
  "callback_wrapper self raw =
     (case handle_callback self raw of
        (self', Inl e) \<Rightarrow> (self', Inl e)
      | (self', Inr controller_state) \<Rightarrow>
          if Some controller_state = a_last_controller_state self' then (self', Inr None)
          else (self'\<lparr>a_last_controller_state := Some controller_state\<rparr>,
                Inr (Some controller_state)))"

text \<open>
  \<open>_GamepadController.handle_event\<close>, which is \<open>self._handler.handle_event(event)\<close>:
  the handler stores the event and calls its callback, the bound method
  \<open>_callback_wrapper\<close> (always callable, so the handler's own \<open>raise\<close> is never
  reached), with its dictionaries.
\<close>

definition adapter_handle_event ::
  "event \<Rightarrow> GamepadAdapter \<Rightarrow> GamepadAdapter \<times> (exn + ControllerState option)" where
  "adapter_handle_event ev self =
     (case store_event ev (a_handler self) of
        None \<Rightarrow> (self, Inr None)
      | Some h \<Rightarrow> callback_wrapper (self\<lparr>a_handler := h\<rparr>) (raw_controller_state h))"

section \<open>The fixed-rate publisher of the control state (controller.py)\<close>

text \<open>
  A Python string is modelled by its UTF-8 bytes and a byte string by its bytes, both of
  type \<open>string\<close>, so \<open>.encode('utf-8')\<close> changes nothing and \<open>.decode('utf-8')\<close> returns
  its argument when the bytes are well-formed UTF-8 and raises \<open>UnicodeDecodeError\<close>
  otherwise. \<open>json.dumps\<close> and \<open>json.loads\<close> belong to the standard library and are
  parameters \<open>dumps\<close> and \<open>loads\<close> of the model. A dictionary is an association list
  with distinct keys.
\<close>

datatype json =
    JNull
  | JBool bool
  | JInt int
  | JFloat real
  | JString string
  | JArray "json list"
  | JObject "(string \<times> json) list"

text \<open>\<open>controller_state._asdict()\<close>: the six fields in their order of declaration.\<close>

definition asdict :: "ControllerState \<Rightarrow> (string \<times> json) list" where
  "asdict cs =
     [(''throttle'', JFloat (throttle cs)),
      (''brake'', JFloat (brake cs)),
      (''steer'', JFloat (steer cs)),
      (''hand_brake'', JBool (hand_brake cs)),
      (''reverse'', JBool (reverse cs)),
      (''reset'', JBool (reset cs))]"

text \<open>
  \<^verbatim>\<open>
    def serialize_controller_state(controller_state: ControllerState) -> str:
        return json.dumps(controller_state._asdict()).encode('utf-8')
  \<close>
\<close>

definition serialize_controller_state ::
  "((string \<times> json) list \<Rightarrow> string) \<Rightarrow> ControllerState \<Rightarrow> string" where
  "serialize_controller_state dumps controller_state = dumps (asdict controller_state)"

text \<open>Well-formed UTF-8, as the strict decoder of \<open>bytes.decode\<close> accepts it.\<close>

definition continuation :: "nat \<Rightarrow> bool" where
  "continuation b \<longleftrightarrow> 128 \<le> b \<and> b \<le> 191"

fun utf8_valid :: "nat list \<Rightarrow> bool" where
  "utf8_valid [] = True"
| "utf8_valid (b # bs) =
     (if b < 128 then utf8_valid bs
      else if 194 \<le> b \<and> b \<le> 223 then
        (case bs of
           c1 # r \<Rightarrow> continuation c1 \<and> utf8_valid r
         | _ \<Rightarrow> False)
      else if 224 \<le> b \<and> b \<le> 239 then
        (case bs of
           c1 # c2 # r \<Rightarrow>
             (if b = 224 then 160 \<le> c1 \<and> c1 \<le> 191
              else if b = 237 then 128 \<le> c1 \<and> c1 \<le> 159
              else continuation c1)
             \<and> continuation c2 \<and> utf8_valid r
         | _ \<Rightarrow> False)
      else if 240 \<le> b \<and> b \<le> 244 then
        (case bs of
           c1 # c2 # c3 # r \<Rightarrow>
             (if b = 240 then 144 \<le> c1 \<and> c1 \<le> 191
              else if b = 244 then 128 \<le> c1 \<and> c1 \<le> 143
              else continuation c1)
             \<and> continuation c2 \<and> continuation c3 \<and> utf8_valid r
         | _ \<Rightarrow> False)
      else False)"

definition decode_utf8 :: "string \<Rightarrow> exn + string" where
  "decode_utf8 data =
     (if utf8_valid (map of_char data) then Inr data else Inl UnicodeDecodeError)"

text \<open>
  \<open>ControllerState(**d)\<close>: the named tuple of the six values, taken from the dictionary
  by field name. A keyword that is no field and a field without its keyword both raise
  \<open>TypeError\<close>; the values are not checked. A named tuple is the list of its values,
  and \<open>astuple\<close> gives the one of a control state.
\<close>

definition field_names :: "string list" where
  "field_names = [''throttle'', ''brake'', ''steer'', ''hand_brake'', ''reverse'', ''reset'']"

definition new_ControllerState :: "(string \<times> json) list \<Rightarrow> exn + json list" where
  "new_ControllerState d =
     (if \<not> list_all (\<lambda>k. k \<in> set field_names) (map fst d) then Inl TypeError
      else (case those (map (map_of d) field_names) of
              None \<Rightarrow> Inl TypeError
            | Some vs \<Rightarrow> Inr vs))"

definition astuple :: "ControllerState \<Rightarrow> json list" where
  "astuple cs =
     [JFloat (throttle cs), JFloat (brake cs), JFloat (steer cs),
      JBool (hand_brake cs), JBool (reverse cs), JBool (reset cs)]"

text \<open>
  \<^verbatim>\<open>
    def deserialize_controller_state(data: bytes) -> ControllerState:
        return ControllerState(**json.loads(data.decode('utf-8')))
  \<close>
  \<open>**\<close> on a document that is no object raises \<open>TypeError\<close>.
\<close>

definition deserialize_controller_state :: "(string \<Rightarrow> exn + json) \<Rightarrow> string \<Rightarrow> exn + json list" where
  "deserialize_controller_state loads data =
     (case decode_utf8 data of
        Inl e \<Rightarrow> Inl e
      | Inr text \<Rightarrow>
          (case loads text of
             Inl e \<Rightarrow> Inl e
           | Inr (JObject d) \<Rightarrow> new_ControllerState d
           | Inr _ \<Rightarrow> Inl TypeError))"

text \<open>
  Modelled from the spec: \<open>Sender.send_datagram\<close> (udp.py is not among the sources) is the
  publish step of the datagram publisher, which takes a payload and a destination for its
  outgoing queue without blocking and may signal that the queue is saturated. The model
  keeps the pairs handed to the sender, in order, and takes as an input \<open>raises\<close> whether
  this call raises and what.
\<close>

record Sender =
  datagrams :: "(string \<times> (string \<times> int)) list"

definition send_datagram ::
  "exn option \<Rightarrow> Sender \<Rightarrow> string \<Rightarrow> string \<times> int \<Rightarrow> Sender \<times> exn option" where
  "send_datagram raises sender data address =
     (sender\<lparr>datagrams := datagrams sender @ [(data, address)]\<rparr>, raises)"

text \<open>
  \<open>GamepadController\<close> of controller.py: \<open>_sender\<close>, \<open>_host\<close>, \<open>_port\<close>,
  \<open>_gamepad_controller\<close> and \<open>_controller_state\<close>. The constructor gives the adapter
  the bound method \<open>_set_controller_state\<close> as its callback, which is callable.
\<close>

record GamepadController =
  p_sender :: Sender
  p_host :: string
  p_port :: int
  p_gamepad_controller :: GamepadAdapter
  p_controller_state :: "ControllerState option"

definition GamepadController_init ::
  "Sender \<Rightarrow> string \<Rightarrow> int \<Rightarrow> int \<Rightarrow> int \<Rightarrow> int \<Rightarrow> GamepadController" where
  "GamepadController_init sender host port numaxes numbuttons numhats =
     \<lparr>p_sender = sender,
      p_host = host,
      p_port = port,
      p_gamepad_controller = GamepadAdapter_init numaxes numbuttons numhats True,
      p_controller_state = None\<rparr>"

definition set_controller_state ::
  "GamepadController \<Rightarrow> ControllerState option \<Rightarrow> GamepadController" where
  "set_controller_state self controller_state = self\<lparr>p_controller_state := controller_state\<rparr>"

text \<open>
  \<open>GamepadController._work\<close>, one tick of the timed loop:
  \<^verbatim>\<open>
    if self._controller_state is None:
        return
    try:
        self._sender.send_datagram(
            data=serialize_controller_state(self._controller_state),
            address=(self._host, self._port)
        )
    except Empty:
        pass
  \<close>
  The result is the new state and the exception that leaves \<open>_work\<close>, if any. The
  handler names \<open>queue.Empty\<close>: it is the only exception caught.
\<close>

definition work ::
  "((string \<times> json) list \<Rightarrow> string) \<Rightarrow> exn option \<Rightarrow> GamepadController
     \<Rightarrow> GamepadController \<times> exn option" where
  "work dumps raises self =
     (case p_controller_state self of
        None \<Rightarrow> (self, None)
      | Some controller_state \<Rightarrow>
          (case send_datagram raises (p_sender self)
                  (serialize_controller_state dumps controller_state) (p_host self, p_port self) of
             (sender, None) \<Rightarrow> (self\<lparr>p_sender := sender\<rparr>, None)
           | (sender, Some e) \<Rightarrow>
               if e = Empty then (self\<lparr>p_sender := sender\<rparr>, None)
               else (self\<lparr>p_sender := sender\<rparr>, Some e)))"

text \<open>
  The send stage of the frame relay makes the same call in
  \<open>Sensor._send_datagrams_from_webp_bytes_queue\<close> (sensor.py), there under
  \<open>except Full: pass\<close>. This is the part of one pass of its loop that follows a
  successful \<open>get\<close>.
\<close>

definition send_webp_bytes ::
  "exn option \<Rightarrow> Sender \<Rightarrow> string \<Rightarrow> string \<times> int \<Rightarrow> Sender \<times> exn option" where
  "send_webp_bytes raises sender webp_bytes address =
     (case send_datagram raises sender webp_bytes address of
        (sender', None) \<Rightarrow> (sender', None)
      | (sender', Some e) \<Rightarrow> if e = Full then (sender', None) else (sender', Some e))"

text \<open>
  \<open>GamepadController.handle_event\<close>: the event goes to the adapter, whose callback
  \<open>_set_controller_state\<close> stores an emitted state.
\<close>

definition handle_event :: "event \<Rightarrow> GamepadController \<Rightarrow> GamepadController \<times> exn option" where
  "handle_event ev self =
     (case adapter_handle_event ev (p_gamepad_controller self) of
        (a, Inl e) \<Rightarrow> (self\<lparr>p_gamepad_controller := a\<rparr>, Some e)
      | (a, Inr None) \<Rightarrow> (self\<lparr>p_gamepad_controller := a\<rparr>, None)
      | (a, Inr (Some controller_state)) \<Rightarrow>
          (set_controller_state (self\<lparr>p_gamepad_controller := a\<rparr>) (Some controller_state), None))"

section \<open>Notions used in the statements\<close>


text \<open>The dictionary entries \<open>_handle_callback\<close> reads: they are all present.\<close>

definition keys_present :: "RawControllerState \<Rightarrow> bool" where
  "keys_present raw \<longleftrightarrow>
     axis_data raw 5 \<noteq> None \<and> axis_data raw 4 \<noteq> None \<and> axis_data raw 0 \<noteq> None \<and>
     button_data raw 0 \<noteq> None \<and> button_data raw 11 \<noteq> None \<and> button_data raw 12 \<noteq> None \<and>
     button_data raw 6 \<noteq> None"

text \<open>The pushes of a sequence of frames, one call of the frame callback each, stop event clear.\<close>

definition pushes :: "'a queue \<Rightarrow> 'a list \<Rightarrow> 'a queue" where
  "pushes q xs = foldl (\<lambda>q x. add_image_to_carla_images_queue False x q) q xs"

text \<open>The adapter after a sequence of events, whatever each call returned or raised.\<close>

definition after_events :: "GamepadAdapter \<Rightarrow> event list \<Rightarrow> GamepadAdapter" where
  "after_events self evs = foldl (\<lambda>a ev. fst (adapter_handle_event ev a)) self evs"

text \<open>The publisher after a sequence of ticks, one sender answer per tick.\<close>

definition after_ticks ::
  "((string \<times> json) list \<Rightarrow> string) \<Rightarrow> GamepadController \<Rightarrow> exn option list \<Rightarrow> GamepadController" where
  "after_ticks dumps self rs = foldl (\<lambda>s r. fst (work dumps r s)) self rs"

text \<open>
  The last emitted state is what the derivation gives again on the handler's present
  dictionaries, and deriving it leaves the adapter as it is.
\<close>

definition settled :: "GamepadAdapter \<Rightarrow> bool" where
  "settled self =
     (case a_last_controller_state self of
        None \<Rightarrow> True
      | Some cs \<Rightarrow> handle_callback self (raw_controller_state (a_handler self)) = (self, Inr cs))"

text \<open>
  What \<open>_handle_callback\<close> computes once every entry it reads is present: the new
  \<open>_reverse\<close> from the two selector buttons and the old value, and the control state
  from the entries read.
\<close>

definition derived_reverse :: "bool \<Rightarrow> bool \<Rightarrow> bool \<Rightarrow> bool" where
  "derived_reverse b11 b12 r = (if b11 then False else if b12 then True else r)"

definition derived_state ::
  "real option \<Rightarrow> real option \<Rightarrow> real option \<Rightarrow> bool \<Rightarrow> bool \<Rightarrow> bool \<Rightarrow> ControllerState" where
  "derived_state a5 a4 a0 b0 r b6 =
     \<lparr>throttle = (case a5 of Some v \<Rightarrow> py_round (fl (fl (fl v + 1) / 2)) 2 | None \<Rightarrow> 0),
      brake = (case a4 of Some v \<Rightarrow> py_round (fl (fl (fl v + 1) / 2)) 2 | None \<Rightarrow> 0),
      steer = handle_steer_deadzone (case a0 of Some v \<Rightarrow> py_round v 2 | None \<Rightarrow> 0),
      hand_brake = b0, reverse = r, reset = b6\<rparr>"

text \<open>
  A joystick with six axes, thirteen buttons and one hat, the adapter and the publisher
  built on it, and the control state of an untouched controller: the inputs of the
  worked examples.
\<close>

abbreviation example_handler :: ControllerEventHandler where
  "example_handler \<equiv> ControllerEventHandler_init 6 13 1"

abbreviation centred_handler :: ControllerEventHandler where
  "centred_handler \<equiv> example_handler\<lparr>h_axis_data := (h_axis_data example_handler)(0 \<mapsto> Some 0)\<rparr>"

abbreviation example_adapter :: GamepadAdapter where
  "example_adapter \<equiv> GamepadAdapter_init 6 13 1 True"

abbreviation neutral_state :: ControllerState where
  "neutral_state \<equiv> \<lparr>throttle = 0, brake = 0, steer = 0,
     hand_brake = False, reverse = False, reset = False\<rparr>"

abbreviation example_publisher :: GamepadController where
  "example_publisher \<equiv> GamepadController_init \<lparr>datagrams = []\<rparr> ''10.0.0.2'' 13337 6 13 1"

section \<open>The drop-oldest push\<close>

lemma add_image_not_full:
  assumes "maxsize q \<le> 0 \<or> int (length (items q)) < maxsize q"
  shows "add_image_to_carla_images_queue False x q = q\<lparr>items := items q @ [x]\<rparr>"
proof -
  have "put_nowait q x = Inr (q\<lparr>items := items q @ [x]\<rparr>)"
    using assms by (auto simp: put_nowait_def)
  then show ?thesis
    by (subst add_image_to_carla_images_queue.simps) simp
qed

lemma add_image_full:
  assumes "0 < maxsize q" and "maxsize q = int (length (items q))"
  shows "add_image_to_carla_images_queue False x q = q\<lparr>items := tl (items q) @ [x]\<rparr>"
proof -
  from assms obtain y ys where ys: "items q = y # ys" by (cases "items q") auto
  have full: "put_nowait q x = Inl Full" using assms by (simp add: put_nowait_def)
  have get: "get_nowait q = Inr (y, q\<lparr>items := ys\<rparr>)" by (simp add: get_nowait_def ys)
  have "add_image_to_carla_images_queue False x q
          = add_image_to_carla_images_queue False x (q\<lparr>items := ys\<rparr>)"
    by (subst add_image_to_carla_images_queue.simps) (simp add: full get)
  also have "\<dots> = (q\<lparr>items := ys\<rparr>)\<lparr>items := items (q\<lparr>items := ys\<rparr>) @ [x]\<rparr>"
    using assms ys by (intro add_image_not_full) simp
  finally show ?thesis by (simp add: ys)
qed

lemma add_image_stopped: "add_image_to_carla_images_queue True x q = q"
  by (subst add_image_to_carla_images_queue.simps) simp

lemma add_image_step:
  assumes "1 \<le> maxsize q" and "int (length (items q)) \<le> maxsize q"
  shows "add_image_to_carla_images_queue False x q
           = q\<lparr>items := drop (Suc (length (items q)) - nat (maxsize q)) (items q @ [x])\<rparr>"
proof (cases "maxsize q = int (length (items q))")
  case True
  then have n: "nat (maxsize q) = length (items q)" by simp
  from True assms obtain y ys where ys: "items q = y # ys" by (cases "items q") auto
  have "0 < maxsize q" using assms by simp
  then have "add_image_to_carla_images_queue False x q = q\<lparr>items := tl (items q) @ [x]\<rparr>"
    using True by (rule add_image_full)
  moreover have "drop (Suc (length (items q)) - nat (maxsize q)) (items q @ [x])
                   = tl (items q) @ [x]"
    by (simp add: n ys)
  ultimately show ?thesis by simp
next
  case False
  with assms have less: "int (length (items q)) < maxsize q" by linarith
  then have "add_image_to_carla_images_queue False x q = q\<lparr>items := items q @ [x]\<rparr>"
    by (intro add_image_not_full) simp
  moreover have "Suc (length (items q)) - nat (maxsize q) = 0" using less by linarith
  ultimately show ?thesis by simp
qed

lemma drop_append_le: "k \<le> length ys \<Longrightarrow> drop k ys @ zs = drop k (ys @ zs)"
  by simp

lemma pushes_items:
  assumes "1 \<le> maxsize q" and "int (length (items q)) \<le> maxsize q"
  shows "pushes q xs
           = q\<lparr>items := drop (length (items q) + length xs - nat (maxsize q)) (items q @ xs)\<rparr>"
  using assms
proof (induction xs arbitrary: q)
  case Nil
  then show ?case by (simp add: pushes_def)
next
  case (Cons x xs)
  define k where "k = Suc (length (items q)) - nat (maxsize q)"
  define ys where "ys = drop k (items q @ [x])"
  define q1 where "q1 = q\<lparr>items := ys\<rparr>"
  have step: "add_image_to_carla_images_queue False x q = q1"
    unfolding q1_def ys_def k_def using Cons.prems by (rule add_image_step)
  have q1: "maxsize q1 = maxsize q" "items q1 = ys" by (simp_all add: q1_def)
  have len: "length ys = Suc (length (items q)) - k" by (simp add: ys_def)
  have m: "1 \<le> maxsize q1" using Cons.prems by (simp add: q1)
  have l: "int (length (items q1)) \<le> maxsize q1"
    using Cons.prems unfolding q1 len k_def by linarith
  have kle: "k \<le> length (items q @ [x])" by (simp add: k_def)
  have a: "length ys + length xs - nat (maxsize q) + k
             = length (items q) + length (x # xs) - nat (maxsize q)"
    using Cons.prems unfolding len k_def by auto
  have "drop (length ys + length xs - nat (maxsize q)) (ys @ xs)
          = drop (length ys + length xs - nat (maxsize q)) (drop k ((items q @ [x]) @ xs))"
    unfolding ys_def by (simp only: drop_append_le [OF kle])
  also have "\<dots> = drop (length (items q) + length (x # xs) - nat (maxsize q)) (items q @ x # xs)"
    by (simp only: drop_drop a append_assoc append_Cons append_Nil)
  finally have "pushes q1 xs
         = q\<lparr>items := drop (length (items q) + length (x # xs) - nat (maxsize q)) (items q @ x # xs)\<rparr>"
    using Cons.IH [OF m l] by (simp add: q1)
  then show ?case by (simp add: step pushes_def)
qed

text \<open>
  Claim C1. With a capacity \<open>N\<close> of at least 1, the stop event clear and no consumer
  (nothing but the pushes touches the queue), pushing more than \<open>N\<close> frames leaves
  in the queue exactly the last \<open>N\<close> of them, oldest first, whatever it held before
  (a queue never holds more than its capacity). Pushing \<open>F1\<close>, \<open>F2\<close>, \<open>F3\<close> into a
  new queue of capacity 2 leaves \<open>F2\<close>, \<open>F3\<close>: draining it gives \<open>F2\<close>, then
  \<open>F3\<close>, then \<open>Empty\<close>.
\<close>

theorem drop_oldest_keeps_last_N:
  fixes q :: "'a queue" and F1 F2 F3 :: 'a
  assumes "1 \<le> maxsize q" and "int (length (items q)) \<le> maxsize q"
    and "nat (maxsize q) < length xs"
  shows "items (pushes q xs) = drop (length xs - nat (maxsize q)) xs
         \<and> length (items (pushes q xs)) = nat (maxsize q)
         \<and> maxsize (pushes q xs) = maxsize q
         \<and> items (pushes (Queue 2) [F1, F2, F3]) = [F2, F3]
         \<and> get_nowait (pushes (Queue 2) [F1, F2, F3])
             = Inr (F2, \<lparr>maxsize = 2, items = [F3]\<rparr>)
         \<and> get_nowait \<lparr>maxsize = 2, items = [F3]\<rparr> = Inr (F3, \<lparr>maxsize = 2, items = []\<rparr>)
         \<and> get_nowait \<lparr>maxsize = 2, items = ([] :: 'a list)\<rparr> = Inl Empty"
proof -
  have "length (items q) + length xs - nat (maxsize q)
          = length (items q) + (length xs - nat (maxsize q))"
    using assms(3) by simp
  then have "drop (length (items q) + length xs - nat (maxsize q)) (items q @ xs)
          = drop (length xs - nat (maxsize q)) xs"
    by simp
  then have "pushes q xs = q\<lparr>items := drop (length xs - nat (maxsize q)) xs\<rparr>"
    using pushes_items [OF assms(1,2), of xs] by simp
  moreover have "pushes (Queue 2) [F1, F2, F3] = (Queue 2)\<lparr>items := [F2, F3]\<rparr>"
    using pushes_items [of "Queue 2" "[F1, F2, F3]"] by (simp add: Queue_def)
  ultimately show ?thesis using assms by (simp add: get_nowait_def Queue_def)
qed

theorem drop_oldest_keeps_last_N_witness:
  "(1::int) \<le> maxsize (Queue 2 :: nat queue)
   \<and> int (length (items (Queue 2 :: nat queue))) \<le> maxsize (Queue 2 :: nat queue)
   \<and> nat (maxsize (Queue 2 :: nat queue)) < length [10, 20, 30 :: nat]
   \<and> items (pushes (Queue 2) [10, 20, 30 :: nat]) = [20, 30]"
  using drop_oldest_keeps_last_N [of "Queue 2" "[10, 20, 30 :: nat]" 10 20 30]
  by (simp add: Queue_def)

section \<open>What the derivation computes\<close>

lemma getitem_Some: "d k = Some v \<Longrightarrow> getitem d k = Inr v"
  by (simp add: getitem_def)

lemma getitem_Inr: "getitem d k = Inr v \<longleftrightarrow> d k = Some v"
  by (simp add: getitem_def split: option.splits)

lemma getitem_Inl: "getitem d k = Inl e \<longleftrightarrow> d k = None \<and> e = KeyError"
  by (auto simp: getitem_def split: option.splits)

lemma handle_callback_present:
  assumes "axis_data raw 5 = Some a5" "axis_data raw 4 = Some a4" "axis_data raw 0 = Some a0"
    "button_data raw 0 = Some b0" "button_data raw 11 = Some b11" "button_data raw 12 = Some b12"
    "button_data raw 6 = Some b6"
  shows "handle_callback self raw =
           (self\<lparr>a_reverse := derived_reverse b11 b12 (a_reverse self)\<rparr>,
            if a_callback_callable self
            then Inr (derived_state a5 a4 a0 b0 (derived_reverse b11 b12 (a_reverse self)) b6)
            else Inl ValueError)"
  using assms
  by (simp add: handle_callback_def getitem_Some derived_reverse_def derived_state_def Let_def
      cong: option.case_cong)

lemma handle_callback_Inr:
  assumes "handle_callback self raw = (self', Inr cs)"
  obtains a5 a4 a0 b0 b11 b12 b6 where
    "axis_data raw 5 = Some a5" "axis_data raw 4 = Some a4" "axis_data raw 0 = Some a0"
    "button_data raw 0 = Some b0" "button_data raw 11 = Some b11" "button_data raw 12 = Some b12"
    "button_data raw 6 = Some b6" "a_callback_callable self"
proof -
  have 1: "axis_data raw 5 \<noteq> None" using assms
    by (auto simp: handle_callback_def getitem_def split: option.splits)
  have 2: "axis_data raw 4 \<noteq> None" using assms 1
    by (auto simp: handle_callback_def getitem_def split: option.splits)
  have 3: "axis_data raw 0 \<noteq> None" using assms 1 2
    by (auto simp: handle_callback_def getitem_def split: option.splits)
  have 4: "button_data raw 0 \<noteq> None" using assms 1 2 3
    by (auto simp: handle_callback_def getitem_def split: option.splits)
  have 5: "button_data raw 11 \<noteq> None" using assms 1 2 3 4
    by (auto simp: handle_callback_def getitem_def split: option.splits)
  have 6: "button_data raw 12 \<noteq> None" using assms 1 2 3 4 5
    by (auto simp: handle_callback_def getitem_def split: option.splits)
  have 7: "button_data raw 6 \<noteq> None" using assms 1 2 3 4 5 6
    by (auto simp: handle_callback_def getitem_def Let_def split: option.splits)
  from 1 2 3 4 5 6 7 obtain a5 a4 a0 b0 b11 b12 b6 where k:
    "axis_data raw 5 = Some a5" "axis_data raw 4 = Some a4" "axis_data raw 0 = Some a0"
    "button_data raw 0 = Some b0" "button_data raw 11 = Some b11" "button_data raw 12 = Some b12"
    "button_data raw 6 = Some b6" by auto
  have "a_callback_callable self"
    using assms unfolding handle_callback_present [OF k] by (auto split: if_splits)
  with k show thesis by (rule that)
qed


lemma handle_callback_total:
  assumes "keys_present raw" and "a_callback_callable self"
  shows "\<exists>self' cs. handle_callback self raw = (self', Inr cs)"
proof -
  from assms(1) obtain a5 a4 a0 b0 b11 b12 b6 where k:
    "axis_data raw 5 = Some a5" "axis_data raw 4 = Some a4" "axis_data raw 0 = Some a0"
    "button_data raw 0 = Some b0" "button_data raw 11 = Some b11" "button_data raw 12 = Some b12"
    "button_data raw 6 = Some b6" by (auto simp: keys_present_def)
  show ?thesis using assms(2) by (simp add: handle_callback_present [OF k])
qed

lemma gamepad_handle_callback_eq: "gamepad_handle_callback self raw = handle_callback self raw"
  by (simp only: gamepad_handle_callback_def handle_callback_def)

section \<open>Rounding to the nearest double\<close>

lemma round_half_even_lower: "of_int m \<le> x \<Longrightarrow> m \<le> round_half_even x"
proof -
  assume "of_int m \<le> x"
  then have "m \<le> \<lfloor>x\<rfloor>" by (simp add: le_floor_iff)
  then show ?thesis by (auto simp: round_half_even_def Let_def)
qed

lemma round_half_even_upper: "x \<le> of_int n \<Longrightarrow> round_half_even x \<le> n"
proof -
  assume le: "x \<le> of_int n"
  show ?thesis
  proof (cases "x = of_int n")
    case True
    then show ?thesis by (simp add: round_half_even_def Let_def)
  next
    case False
    with le have "x < of_int n" by simp
    then have "\<lfloor>x\<rfloor> < n" by (simp add: floor_less_iff)
    then show ?thesis by (auto simp: round_half_even_def Let_def)
  qed
qed

lemma round_half_even_of_int [simp]: "round_half_even (of_int n) = n"
  by (simp add: round_half_even_def)

lemma round_half_even_mono:
  assumes "x \<le> y"
  shows "round_half_even x \<le> round_half_even y"
proof (cases "\<lfloor>x\<rfloor> = \<lfloor>y\<rfloor>")
  case True
  with assms have "x - of_int \<lfloor>x\<rfloor> \<le> y - of_int \<lfloor>y\<rfloor>" by simp
  with True show ?thesis by (auto simp: round_half_even_def Let_def)
next
  case False
  from assms have "\<lfloor>x\<rfloor> \<le> \<lfloor>y\<rfloor>" by (rule floor_mono)
  with False have "\<lfloor>x\<rfloor> + 1 \<le> \<lfloor>y\<rfloor>" by simp
  moreover have "round_half_even x \<le> \<lfloor>x\<rfloor> + 1"
    by (rule round_half_even_upper) linarith
  moreover have "\<lfloor>y\<rfloor> \<le> round_half_even y"
    by (rule round_half_even_lower) simp
  ultimately show ?thesis by linarith
qed

lemma round_half_even_minus: "round_half_even (- x) = - round_half_even x"
proof (cases "x = of_int \<lfloor>x\<rfloor>")
  case True
  then obtain n where "x = of_int n" ..
  then have "- x = of_int (- n)" by simp
  then show ?thesis using \<open>x = of_int n\<close> by (simp only: round_half_even_of_int)
next
  case False
  have "of_int \<lfloor>x\<rfloor> \<le> x" by (rule of_int_floor_le)
  moreover from False have "of_int \<lfloor>x\<rfloor> \<noteq> x" by (rule not_sym)
  ultimately have lt: "of_int \<lfloor>x\<rfloor> < x" by (rule le_neq_trans)
  have ub: "x < of_int \<lfloor>x\<rfloor> + 1" by linarith
  have f: "\<lfloor>- x\<rfloor> = - \<lfloor>x\<rfloor> - 1"
    unfolding floor_eq_iff using lt ub by (auto; linarith)
  have d: "0 < x - of_int \<lfloor>x\<rfloor>" using lt by simp
  have d1: "x - of_int \<lfloor>x\<rfloor> < 1" by linarith
  show ?thesis
    using d d1 by (auto simp: round_half_even_def Let_def f)
qed

lemma expo_ge: "- 1022 \<le> expo x"
  by (simp add: expo_def)

lemma pow2_powi_nat: "0 \<le> k \<Longrightarrow> (2::real) powi k = 2 ^ nat k"
  by (simp add: power_int_def)

lemma expo_raw_upper:
  fixes x :: real
  shows "\<bar>x\<bar> < 2 powi ((if 1 \<le> \<bar>x\<bar> then bitlen \<lfloor>\<bar>x\<bar>\<rfloor> - 1 else - bitlen (\<lceil>1 / \<bar>x\<bar>\<rceil> - 1)) + 1)"
proof (cases "1 \<le> \<bar>x\<bar>")
  case True
  define n where "n = \<lfloor>\<bar>x\<bar>\<rfloor>"
  define B :: int where "B = 2 ^ nat (bitlen n)"
  have n: "0 < n" using True by (simp add: n_def)
  from bitlen_bounds [OF n] have "n + 1 \<le> B" by (simp add: B_def)
  then have "real_of_int n + 1 \<le> real_of_int B" by linarith
  moreover have "\<bar>x\<bar> < real_of_int n + 1" unfolding n_def by linarith
  ultimately have "\<bar>x\<bar> < real_of_int B" by linarith
  moreover have "real_of_int B = 2 powi (bitlen n - 1 + 1)"
    using bitlen_nonneg [of n] by (simp add: B_def pow2_powi_nat)
  ultimately show ?thesis using True by (simp add: n_def)
next
  case False
  show ?thesis
  proof (cases "x = 0")
    case True
    then show ?thesis by simp
  next
    case nz: False
    define y where "y = 1 / \<bar>x\<bar>"
    define m where "m = \<lceil>y\<rceil> - 1"
    define B :: int where "B = 2 ^ nat (bitlen m - 1)"
    have y1: "1 < y" using False nz by (simp add: y_def)
    then have "2 \<le> \<lceil>y\<rceil>" by linarith
    then have m: "0 < m" by (simp add: m_def)
    have "real_of_int m < y" unfolding m_def by linarith
    moreover from bitlen_bounds [OF m] have "B \<le> m" by (simp add: B_def)
    then have "real_of_int B \<le> real_of_int m" by linarith
    ultimately have By: "real_of_int B < y" by linarith
    have Bpos: "0 < real_of_int B" by (simp add: B_def)
    have xpos: "0 < \<bar>x\<bar>" using nz by simp
    have "\<bar>x\<bar> * real_of_int B < \<bar>x\<bar> * y"
      using By xpos by (rule mult_strict_left_mono)
    also have "\<bar>x\<bar> * y = 1" using nz by (simp add: y_def)
    finally have "\<bar>x\<bar> < 1 / real_of_int B" using Bpos by (simp add: field_simps)
    moreover have "bitlen m \<ge> 1" using m by (simp add: bitlen_alt_def)
    then have "(2::real) powi (- bitlen m + 1) = 1 / real_of_int B"
      by (simp add: B_def power_int_def nat_diff_distrib field_simps)
    ultimately show ?thesis using False by (simp add: m_def y_def)
  qed
qed

lemma expo_upper: "\<bar>x\<bar> < 2 powi (expo x + 1)"
proof -
  let ?r = "if 1 \<le> \<bar>x\<bar> then bitlen \<lfloor>\<bar>x\<bar>\<rfloor> - 1 else - bitlen (\<lceil>1 / \<bar>x\<bar>\<rceil> - 1)"
  have "\<bar>x\<bar> < 2 powi (?r + 1)" by (rule expo_raw_upper)
  also have "\<dots> \<le> 2 powi (expo x + 1)"
    by (rule power_int_increasing) (simp_all add: expo_def)
  finally show ?thesis .
qed

lemma expo_lower:
  assumes "x \<noteq> 0" and "- 1022 < expo x"
  shows "2 powi expo x \<le> \<bar>x\<bar>"
proof (cases "1 \<le> \<bar>x\<bar>")
  case True
  define n where "n = \<lfloor>\<bar>x\<bar>\<rfloor>"
  define B :: int where "B = 2 ^ nat (bitlen n - 1)"
  have n: "0 < n" using True by (simp add: n_def)
  have e: "expo x = bitlen n - 1" using assms(2) True by (simp add: expo_def n_def)
  from n have b: "1 \<le> bitlen n" by (simp add: bitlen_alt_def)
  from bitlen_bounds [OF n] have "B \<le> n" by (simp add: B_def)
  then have "real_of_int B \<le> real_of_int n" by linarith
  also have "\<dots> \<le> \<bar>x\<bar>" by (simp add: n_def)
  finally have "real_of_int B \<le> \<bar>x\<bar>" .
  moreover have "real_of_int B = 2 powi (bitlen n - 1)"
    using b by (simp add: B_def pow2_powi_nat)
  ultimately show ?thesis by (simp add: e)
next
  case False
  define y where "y = 1 / \<bar>x\<bar>"
  define m where "m = \<lceil>y\<rceil> - 1"
  define B :: int where "B = 2 ^ nat (bitlen m)"
  have e: "expo x = - bitlen m" using assms(2) False by (simp add: expo_def m_def y_def)
  have y1: "1 < y" using False assms(1) by (simp add: y_def)
  then have "2 \<le> \<lceil>y\<rceil>" by linarith
  then have m: "0 < m" by (simp add: m_def)
  from bitlen_bounds [OF m] have "m + 1 \<le> B" by (simp add: B_def)
  then have "real_of_int m + 1 \<le> real_of_int B" by linarith
  moreover have "y \<le> real_of_int m + 1" unfolding m_def by linarith
  ultimately have yB: "y \<le> real_of_int B" by linarith
  have Bpos: "0 < real_of_int B" by (simp add: B_def)
  have xpos: "0 < \<bar>x\<bar>" using assms(1) by simp
  have "\<bar>x\<bar> * y \<le> \<bar>x\<bar> * real_of_int B"
    using yB xpos by (simp add: mult_left_mono)
  moreover have "\<bar>x\<bar> * y = 1" using assms(1) by (simp add: y_def)
  ultimately have "1 / real_of_int B \<le> \<bar>x\<bar>" using Bpos by (simp add: field_simps)
  moreover have "(2::real) powi (- bitlen m) = 1 / real_of_int B"
    using bitlen_nonneg [of m] by (simp add: B_def power_int_def field_simps)
  ultimately show ?thesis by (simp add: e)
qed

lemma expo_minus [simp]: "expo (- x) = expo x"
  by (simp add: expo_def)

lemma expo_mono_abs:
  assumes "x \<noteq> 0" and "\<bar>x\<bar> \<le> \<bar>y\<bar>"
  shows "expo x \<le> expo y"
proof (rule ccontr)
  assume "\<not> expo x \<le> expo y"
  then have lt: "expo y + 1 \<le> expo x" by simp
  with expo_ge [of y] have big: "- 1022 < expo x" by simp
  from expo_lower [OF assms(1) big] have "2 powi expo x \<le> \<bar>x\<bar>" .
  also have "\<dots> \<le> \<bar>y\<bar>" by (rule assms)
  also have "\<dots> < 2 powi (expo y + 1)" by (rule expo_upper)
  also have "\<dots> \<le> 2 powi expo x" by (rule power_int_increasing) (use lt in simp_all)
  finally show False by simp
qed

lemma fl_0 [simp]: "fl 0 = 0"
  by (simp add: fl_def round_half_even_def)

lemma fl_minus: "fl (- x) = - fl x"
  by (simp add: fl_def round_half_even_minus)

lemma quantum_pos: "0 < (2::real) powi k"
  by simp

lemma fl_nonneg: "0 \<le> x \<Longrightarrow> 0 \<le> fl x"
proof -
  assume "0 \<le> x"
  then have "of_int 0 \<le> x / 2 powi (expo x - 52)" by simp
  then have "0 \<le> round_half_even (x / 2 powi (expo x - 52))" by (rule round_half_even_lower)
  then show ?thesis by (simp add: fl_def)
qed

lemma fl_pos_upper:
  assumes "0 < x"
  shows "fl x \<le> 2 powi (expo x + 1)"
proof -
  define q :: real where "q = 2 powi (expo x - 52)"
  have q: "0 < q" by (simp add: q_def)
  have "x < 2 powi (expo x + 1)" using expo_upper [of x] assms by simp
  also have "(2::real) powi (expo x + 1) = 2 ^ 53 * q"
    unfolding q_def by (simp add: power_int_add power_int_diff)
  finally have "x / q \<le> 2 ^ 53" using q by (simp add: field_simps)
  then have "x / q \<le> real_of_int (2 ^ 53)" by simp
  then have "round_half_even (x / q) \<le> 2 ^ 53" by (rule round_half_even_upper)
  then have "real_of_int (round_half_even (x / q)) \<le> real_of_int (2 ^ 53)"
    by (simp only: of_int_le_iff)
  then have "real_of_int (round_half_even (x / q)) \<le> 2 ^ 53" by simp
  then have "real_of_int (round_half_even (x / q)) * q \<le> 2 ^ 53 * q"
    using q by (simp add: mult_right_mono)
  also have "2 ^ 53 * q = 2 powi (expo x + 1)"
    unfolding q_def by (simp add: power_int_add power_int_diff)
  finally show ?thesis by (simp add: fl_def q_def)
qed

lemma fl_pos_lower:
  assumes "0 < x" and "- 1022 < expo x"
  shows "2 powi expo x \<le> fl x"
proof -
  define q :: real where "q = 2 powi (expo x - 52)"
  have q: "0 < q" by (simp add: q_def)
  have eq: "(2::real) powi expo x = 2 ^ 52 * q"
    unfolding q_def by (simp add: power_int_diff)
  have "2 powi expo x \<le> x" using expo_lower [of x] assms by simp
  then have "2 ^ 52 \<le> x / q" using q by (simp add: eq field_simps)
  then have "real_of_int (2 ^ 52) \<le> x / q" by simp
  then have "2 ^ 52 \<le> round_half_even (x / q)" by (rule round_half_even_lower)
  then have "real_of_int (2 ^ 52) \<le> real_of_int (round_half_even (x / q))"
    by (simp only: of_int_le_iff)
  then have "2 ^ 52 \<le> real_of_int (round_half_even (x / q))" by simp
  then have "2 ^ 52 * q \<le> real_of_int (round_half_even (x / q)) * q"
    using q by (simp add: mult_right_mono)
  then show ?thesis by (simp add: fl_def q_def [symmetric] eq)
qed

lemma fl_mono_pos:
  assumes "0 < x" and "x \<le> y"
  shows "fl x \<le> fl y"
proof -
  have y: "0 < y" using assms by simp
  have "expo x \<le> expo y" by (rule expo_mono_abs) (use assms in simp_all)
  then consider "expo x = expo y" | "expo x + 1 \<le> expo y" by linarith
  then show ?thesis
  proof cases
    case 1
    have "x / 2 powi (expo y - 52) \<le> y / 2 powi (expo y - 52)"
      using assms(2) by (simp add: divide_right_mono)
    then have "round_half_even (x / 2 powi (expo y - 52)) \<le> round_half_even (y / 2 powi (expo y - 52))"
      by (rule round_half_even_mono)
    then have "real_of_int (round_half_even (x / 2 powi (expo y - 52))) * 2 powi (expo y - 52)
                 \<le> real_of_int (round_half_even (y / 2 powi (expo y - 52))) * 2 powi (expo y - 52)"
      by (simp add: mult_right_mono)
    then show ?thesis by (simp add: fl_def 1)
  next
    case 2
    with expo_ge [of x] have big: "- 1022 < expo y" by simp
    have "fl x \<le> 2 powi (expo x + 1)" using assms(1) by (rule fl_pos_upper)
    also have "\<dots> \<le> 2 powi expo y" by (rule power_int_increasing) (use 2 in simp_all)
    also have "\<dots> \<le> fl y" using y big by (rule fl_pos_lower)
    finally show ?thesis .
  qed
qed

lemma fl_mono:
  assumes "x \<le> y"
  shows "fl x \<le> fl y"
proof -
  consider "0 < x" | "x \<le> 0" "0 \<le> y" | "y < 0" by linarith
  then show ?thesis
  proof cases
    case 1
    then show ?thesis using assms by (rule fl_mono_pos)
  next
    case 2
    from 2(1) have "0 \<le> fl (- x)" by (intro fl_nonneg) simp
    then have "fl x \<le> 0" by (simp add: fl_minus)
    also have "0 \<le> fl y" using 2(2) by (rule fl_nonneg)
    finally show ?thesis .
  next
    case 3
    then have "0 < - y" and "- y \<le> - x" using assms by simp_all
    then have "fl (- y) \<le> fl (- x)" by (rule fl_mono_pos)
    then show ?thesis by (simp add: fl_minus)
  qed
qed

lemma fl_1 [simp]: "fl 1 = 1" by code_simp
lemma fl_2 [simp]: "fl 2 = 2" by code_simp


lemma expo_eqI:
  assumes "d \<noteq> 0" and "- 1022 \<le> k" and "\<bar>d\<bar> < 2 powi (k + 1)"
    and "k = - 1022 \<or> 2 powi k \<le> \<bar>d\<bar>"
  shows "expo d = k"
proof (rule antisym)
  show "expo d \<le> k"
  proof (rule ccontr)
    assume "\<not> expo d \<le> k"
    then have lt: "k + 1 \<le> expo d" by simp
    with assms(2) have "- 1022 < expo d" by simp
    with assms(1) have "2 powi expo d \<le> \<bar>d\<bar>" by (rule expo_lower)
    also note assms(3)
    also have "2 powi (k + 1) \<le> (2::real) powi expo d"
      by (rule power_int_increasing) (use lt in simp_all)
    finally show False by simp
  qed
  show "k \<le> expo d"
  proof (rule ccontr)
    assume "\<not> k \<le> expo d"
    then have lt: "expo d + 1 \<le> k" by simp
    with expo_ge [of d] have "k \<noteq> - 1022" by simp
    with assms(4) have "2 powi k \<le> \<bar>d\<bar>" by simp
    also have "\<bar>d\<bar> < 2 powi (expo d + 1)" by (rule expo_upper)
    also have "2 powi (expo d + 1) \<le> (2::real) powi k"
      by (rule power_int_increasing) (use lt in simp_all)
    finally show False by simp
  qed
qed

lemma fl_grid:
  assumes "0 < n" and "n \<le> 2 ^ 53" and "- 1022 \<le> e" and "e = - 1022 \<or> 2 ^ 52 \<le> n"
  shows "fl (real_of_int n * 2 powi (e - 52)) = real_of_int n * 2 powi (e - 52)"
proof -
  define q :: real where "q = 2 powi (e - 52)"
  define d where "d = real_of_int n * q"
  have q: "0 < q" by (simp add: q_def)
  have d: "0 < d" using assms(1) q by (simp add: d_def)
  have p1: "(2::real) powi (e + 1) = 2 ^ 53 * q" and p0: "(2::real) powi e = 2 ^ 52 * q"
    and p2: "(2::real) powi (e + 2) = 2 ^ 54 * q" and q2: "(2::real) powi (e - 51) = 2 * q"
    unfolding q_def by (simp_all add: power_int_add power_int_diff)
  show ?thesis
  proof (cases "n = 2 ^ 53")
    case True
    then have dv: "d = 2 ^ 53 * q" by (simp add: d_def)
    have "expo d = e + 1"
    proof (rule expo_eqI)
      show "d \<noteq> 0" using d by simp
      show "- 1022 \<le> e + 1" using assms(3) by simp
      have "\<bar>d\<bar> < 2 ^ 54 * q" using q by (simp add: dv)
      moreover have "e + 1 + 1 = e + 2" by simp
      ultimately show "\<bar>d\<bar> < 2 powi (e + 1 + 1)" by (simp only: p2)
      have "2 ^ 53 * q \<le> \<bar>d\<bar>" using q by (simp add: dv)
      then have "2 powi (e + 1) \<le> \<bar>d\<bar>" by (simp only: p1)
      then show "e + 1 = - 1022 \<or> 2 powi (e + 1) \<le> \<bar>d\<bar>" by (rule disjI2)
    qed
    then have "fl d = real_of_int (round_half_even (d / (2 * q))) * (2 * q)"
      by (simp add: fl_def q2)
    also have "d / (2 * q) = real_of_int (2 ^ 52)" using q by (simp add: dv)
    also have "real_of_int (round_half_even (real_of_int (2 ^ 52))) * (2 * q) = d"
      by (simp only: round_half_even_of_int) (simp add: dv)
    finally show ?thesis by (simp add: d_def q_def)
  next
    case False
    with assms(2) have lt: "n < 2 ^ 53" by simp
    then have "real_of_int n < real_of_int (2 ^ 53)" by (simp only: of_int_less_iff)
    then have nlt: "real_of_int n < 2 ^ 53" by simp
    have "expo d = e"
    proof (rule expo_eqI)
      show "d \<noteq> 0" using d by simp
      show "- 1022 \<le> e" by (rule assms)
      have "\<bar>d\<bar> < 2 ^ 53 * q" using q nlt d by (simp add: d_def)
      then show "\<bar>d\<bar> < 2 powi (e + 1)" by (simp only: p1)
      show "e = - 1022 \<or> 2 powi e \<le> \<bar>d\<bar>"
      proof (cases "e = - 1022")
        case False
        with assms(4) have "2 ^ 52 \<le> n" by simp
        then have "real_of_int (2 ^ 52) \<le> real_of_int n" by (simp only: of_int_le_iff)
        then have "2 ^ 52 \<le> real_of_int n" by simp
        then have "2 ^ 52 * q \<le> \<bar>d\<bar>" using q d by (simp add: d_def)
        then have "2 powi e \<le> \<bar>d\<bar>" by (simp only: p0)
        then show ?thesis by (rule disjI2)
      qed simp
    qed
    then have "fl d = real_of_int (round_half_even (d / q)) * q"
      by (simp add: fl_def q_def)
    also have "d / q = real_of_int n" using q by (simp add: d_def)
    finally show ?thesis by (simp add: d_def q_def)
  qed
qed

lemma fl_idem_pos:
  assumes "0 < x"
  shows "fl (fl x) = fl x"
proof -
  define e where "e = expo x"
  define q :: real where "q = 2 powi (e - 52)"
  define n where "n = round_half_even (x / q)"
  have q: "0 < q" by (simp add: q_def)
  have flx: "fl x = real_of_int n * 2 powi (e - 52)" by (simp add: fl_def n_def q_def e_def)
  have p1: "(2::real) powi (e + 1) = 2 ^ 53 * q" and p0: "(2::real) powi e = 2 ^ 52 * q"
    unfolding q_def by (simp_all add: power_int_add power_int_diff)
  have "x < 2 powi (e + 1)" using expo_upper [of x] assms by (simp add: e_def)
  then have "x < 2 ^ 53 * q" by (simp only: p1)
  then have "x / q \<le> real_of_int (2 ^ 53)" using q by (simp add: field_simps)
  then have n53: "n \<le> 2 ^ 53" unfolding n_def by (rule round_half_even_upper)
  have "real_of_int 0 \<le> x / q" using assms q by simp
  then have n0: "0 \<le> n" unfolding n_def by (rule round_half_even_lower)
  show ?thesis
  proof (cases "n = 0")
    case True
    then show ?thesis by (simp add: flx)
  next
    case False
    with n0 have npos: "0 < n" by simp
    have big: "e = - 1022 \<or> 2 ^ 52 \<le> n"
    proof (cases "e = - 1022")
      case False
      with expo_ge [of x] have "- 1022 < expo x" by (simp add: e_def)
      with assms have "2 powi e \<le> x" using expo_lower [of x] by (simp add: e_def)
      then have "2 ^ 52 * q \<le> x" by (simp only: p0)
      then have "real_of_int (2 ^ 52) \<le> x / q" using q by (simp add: field_simps)
      then have "2 ^ 52 \<le> n" unfolding n_def by (rule round_half_even_lower)
      then show ?thesis ..
    qed simp
    have "- 1022 \<le> e" by (simp add: e_def expo_ge)
    with npos n53 have "fl (real_of_int n * 2 powi (e - 52)) = real_of_int n * 2 powi (e - 52)"
      using big by (rule fl_grid)
    then show ?thesis by (simp add: flx)
  qed
qed

lemma fl_idem [simp]: "fl (fl x) = fl x"
proof -
  consider "0 < x" | "x = 0" | "0 < - x" by linarith
  then show ?thesis
  proof cases
    case 1
    then show ?thesis by (rule fl_idem_pos)
  next
    case 2
    then show ?thesis by simp
  next
    case 3
    then have "fl (fl (- x)) = fl (- x)" by (rule fl_idem_pos)
    then show ?thesis by (simp add: fl_minus)
  qed
qed

lemma fl_minus_1 [simp]: "fl (- 1) = - 1"
  using fl_minus [of 1] by simp





text \<open>
  Values of \<open>round\<close> as Python computes them: stick jitter rounds to 0, and the halved
  sums fall on the side of the tie that the doubles decide.
\<close>

lemma py_round_zero: "py_round 0 2 = 0"
  by (simp add: py_round_def round_half_even_def)

lemma py_round_jitter: "py_round 0.001 2 = 0" "py_round 0.002 2 = 0" "py_round 0.003 2 = 0"
  by code_simp+

lemma py_round_values:
  "py_round 3 2 = 3" "py_round (- 0.93) 2 = - 0.93" "py_round 0.01 2 = 0.01"
  "py_round 0.165 2 = 0.17" "py_round 0.5 2 = 0.5"
  by code_simp+

lemma halved_sum_values:
  "py_round (fl (fl (fl (- 0.93) + 1) / 2)) 2 = 0.03"
  "py_round (fl (fl (fl 0.01 + 1) / 2)) 2 = 0.51"
  "py_round (fl (fl (fl 0.5 + 1) / 2)) 2 = 0.75"
  "py_round (fl (fl (fl 3 + 1) / 2)) 2 = 2"
  by code_simp+

text \<open>
  On the values \<open>round(x, 2)\<close> returns, comparing the decimals with 0.16 is comparing
  the doubles they denote with the double of the literal 0.16, as the dead zone does.
\<close>

lemma deadzone_on_doubles:
  "(- 0.16 \<le> real_of_int k / 100 \<and> real_of_int k / 100 \<le> 0.16)
     \<longleftrightarrow> (fl (- 0.16) \<le> fl (real_of_int k / 100) \<and> fl (real_of_int k / 100) \<le> fl 0.16)"
proof -
  have up: "fl 0.16 < fl 0.17" by code_simp
  have down: "fl (- 0.17) < fl (- 0.16)" by code_simp
  consider "k \<le> - 17" | "- 16 \<le> k" "k \<le> 16" | "17 \<le> k" by linarith
  then show ?thesis
  proof cases
    case 1
    then have "real_of_int k / 100 \<le> - 0.17" by simp
    then have "fl (real_of_int k / 100) \<le> fl (- 0.17)" by (rule fl_mono)
    with down have "\<not> fl (- 0.16) \<le> fl (real_of_int k / 100)" by simp
    moreover have "\<not> - 0.16 \<le> real_of_int k / 100" using 1 by simp
    ultimately show ?thesis by simp
  next
    case 2
    then have a: "- 0.16 \<le> real_of_int k / 100" and b: "real_of_int k / 100 \<le> 0.16" by simp_all
    from a have "fl (- 0.16) \<le> fl (real_of_int k / 100)" by (rule fl_mono)
    moreover from b have "fl (real_of_int k / 100) \<le> fl 0.16" by (rule fl_mono)
    ultimately show ?thesis using a b by simp
  next
    case 3
    then have "0.17 \<le> real_of_int k / 100" by simp
    then have "fl 0.17 \<le> fl (real_of_int k / 100)" by (rule fl_mono)
    with up have "\<not> fl (real_of_int k / 100) \<le> fl 0.16" by simp
    moreover have "\<not> real_of_int k / 100 \<le> 0.16" using 3 by simp
    ultimately show ?thesis by simp
  qed
qed

lemmas eval_defs = adapter_handle_event_def store_event_def callback_wrapper_def handle_callback_def
        getitem_def raw_controller_state_def ControllerEventHandler_init_def GamepadAdapter_init_def
        handle_steer_deadzone_def py_round_zero py_round_jitter [simplified]
        py_round_values [simplified] halved_sum_values [simplified]

section \<open>The steering deadzone\<close>

text \<open>
  Claim C4. \<open>handle_steer_deadzone\<close> gives exactly 0 for every \<open>x\<close> from -0.16 to 0.16,
  both ends included, and gives \<open>x\<close> itself for every \<open>x\<close> outside, as for 0.17 and -0.17.
\<close>

theorem steer_deadzone:
  "(- 0.16 \<le> x \<and> x \<le> 0.16 \<longrightarrow> handle_steer_deadzone x = 0)
   \<and> (x < - 0.16 \<or> 0.16 < x \<longrightarrow> handle_steer_deadzone x = x)
   \<and> handle_steer_deadzone 0.17 = 0.17
   \<and> handle_steer_deadzone (- 0.17) = - 0.17"
  by (auto simp: handle_steer_deadzone_def)

theorem steer_deadzone_witness:
  "(- 0.16 \<le> (0.16 :: real) \<and> (0.16 :: real) \<le> 0.16) \<and> handle_steer_deadzone 0.16 = 0
   \<and> (0.16 < (0.5 :: real)) \<and> handle_steer_deadzone 0.5 = 0.5"
  using steer_deadzone [of "0.16"] steer_deadzone [of "0.5"] by simp

section \<open>The derived throttle\<close>




section \<open>The sticky reverse\<close>

text \<open>
  Claim C5. Whenever \<open>_handle_callback\<close> derives a state: with button 11 (select forward)
  pressed the derived reverse is false, whatever button 12 is; otherwise with button 12
  (select reverse) pressed it is true; otherwise it is the value \<open>_reverse\<close> holds, which
  is false in a new adapter and after every update the reverse that update derived. The
  method of controller_gamepad.py computes the same.
\<close>

theorem reverse_sticky:
  "(keys_present raw \<and> a_callback_callable self
      \<longrightarrow> (\<exists>self' cs. handle_callback self raw = (self', Inr cs)))
   \<and> (\<forall>self' cs. handle_callback self raw = (self', Inr cs) \<longrightarrow>
         (button_data raw 11 = Some True \<longrightarrow> reverse cs = False)
         \<and> (button_data raw 11 = Some False \<and> button_data raw 12 = Some True \<longrightarrow> reverse cs = True)
         \<and> (button_data raw 11 = Some False \<and> button_data raw 12 = Some False
               \<longrightarrow> reverse cs = a_reverse self)
         \<and> a_reverse self' = reverse cs)
   \<and> a_reverse (GamepadAdapter_init numaxes numbuttons numhats callable) = False
   \<and> gamepad_handle_callback self raw = handle_callback self raw"
proof (intro conjI allI impI)
  assume "keys_present raw \<and> a_callback_callable self"
  then show "\<exists>self' cs. handle_callback self raw = (self', Inr cs)"
    by (simp add: handle_callback_total)
next
  show "a_reverse (GamepadAdapter_init numaxes numbuttons numhats callable) = False"
    by (simp add: GamepadAdapter_init_def)
next
  show "gamepad_handle_callback self raw = handle_callback self raw"
    by (rule gamepad_handle_callback_eq)
next
  fix self' cs
  assume h: "handle_callback self raw = (self', Inr cs)"
  from h obtain a5 a4 a0 b0 b11 b12 b6 where k:
    "axis_data raw 5 = Some a5" "axis_data raw 4 = Some a4" "axis_data raw 0 = Some a0"
    "button_data raw 0 = Some b0" "button_data raw 11 = Some b11" "button_data raw 12 = Some b12"
    "button_data raw 6 = Some b6" and c: "a_callback_callable self"
    by (rule handle_callback_Inr)
  have cs: "cs = derived_state a5 a4 a0 b0 (derived_reverse b11 b12 (a_reverse self)) b6"
    and s: "self' = self\<lparr>a_reverse := derived_reverse b11 b12 (a_reverse self)\<rparr>"
    using h c by (simp_all add: handle_callback_present [OF k])
  have r: "reverse cs = derived_reverse b11 b12 (a_reverse self)"
    by (simp add: cs derived_state_def)
  {
    assume "button_data raw 11 = Some True"
    then show "reverse cs = False" using k by (simp add: r derived_reverse_def)
  next
    assume "button_data raw 11 = Some False \<and> button_data raw 12 = Some True"
    then show "reverse cs = True" using k by (simp add: r derived_reverse_def)
  next
    assume "button_data raw 11 = Some False \<and> button_data raw 12 = Some False"
    then show "reverse cs = a_reverse self" using k by (simp add: r derived_reverse_def)
  next
    show "a_reverse self' = reverse cs" by (simp add: r s)
  }
qed

theorem reverse_sticky_witness:
  "(let raw = raw_controller_state ((ControllerEventHandler_init 6 13 1)
               \<lparr>h_button_data := (h_button_data (ControllerEventHandler_init 6 13 1))(11 \<mapsto> True, 12 \<mapsto> True)\<rparr>);
        self = (GamepadAdapter_init 6 13 1 True)\<lparr>a_reverse := True\<rparr>
    in keys_present raw \<and> a_callback_callable self \<and> button_data raw 11 = Some True
       \<and> (\<exists>self' cs. handle_callback self raw = (self', Inr cs) \<and> reverse cs = False
             \<and> a_reverse self' = False))
   \<and> (let raw = raw_controller_state ((ControllerEventHandler_init 6 13 1)
               \<lparr>h_button_data := (h_button_data (ControllerEventHandler_init 6 13 1))(12 \<mapsto> True)\<rparr>);
        self = GamepadAdapter_init 6 13 1 True
    in keys_present raw \<and> a_callback_callable self
       \<and> button_data raw 11 = Some False \<and> button_data raw 12 = Some True
       \<and> (\<exists>self' cs. handle_callback self raw = (self', Inr cs) \<and> reverse cs = True
             \<and> a_reverse self' = True))
   \<and> (let raw = raw_controller_state (ControllerEventHandler_init 6 13 1);
        self = (GamepadAdapter_init 6 13 1 True)\<lparr>a_reverse := True\<rparr>
    in keys_present raw \<and> a_callback_callable self
       \<and> button_data raw 11 = Some False \<and> button_data raw 12 = Some False
       \<and> (\<exists>self' cs. handle_callback self raw = (self', Inr cs) \<and> reverse cs = True
             \<and> a_reverse self' = True))"
proof -
  have A: "keys_present raw \<and> a_callback_callable self \<and> button_data raw 11 = Some True
       \<and> (\<exists>self' cs. handle_callback self raw = (self', Inr cs) \<and> reverse cs = False
             \<and> a_reverse self' = False)"
    if "keys_present raw" "a_callback_callable self" "button_data raw 11 = Some True"
    for raw self
    using reverse_sticky [of raw self] that by (metis (full_types))
  have B: "keys_present raw \<and> a_callback_callable self
       \<and> button_data raw 11 = Some False \<and> button_data raw 12 = Some True
       \<and> (\<exists>self' cs. handle_callback self raw = (self', Inr cs) \<and> reverse cs = True
             \<and> a_reverse self' = True)"
    if "keys_present raw" "a_callback_callable self" "button_data raw 11 = Some False"
      "button_data raw 12 = Some True"
    for raw self
    using reverse_sticky [of raw self] that by (metis (full_types))
  have C: "keys_present raw \<and> a_callback_callable self
       \<and> button_data raw 11 = Some False \<and> button_data raw 12 = Some False
       \<and> (\<exists>self' cs. handle_callback self raw = (self', Inr cs) \<and> reverse cs = True
             \<and> a_reverse self' = True)"
    if "keys_present raw" "a_callback_callable self" "button_data raw 11 = Some False"
      "button_data raw 12 = Some False" "a_reverse self = True"
    for raw self
    using reverse_sticky [of raw self] that by (metis (full_types))
  show ?thesis
    unfolding Let_def
    by (intro conjI A B C)
       (simp_all add: keys_present_def raw_controller_state_def ControllerEventHandler_init_def
          GamepadAdapter_init_def)
qed

section \<open>The adapter: derivation, deduplication and its invariant\<close>

lemma derived_reverse_idem:
  "derived_reverse b11 b12 (derived_reverse b11 b12 r) = derived_reverse b11 b12 r"
  by (simp add: derived_reverse_def)

lemma callback_wrapper_present:
  assumes "axis_data raw 5 = Some a5" "axis_data raw 4 = Some a4" "axis_data raw 0 = Some a0"
    "button_data raw 0 = Some b0" "button_data raw 11 = Some b11" "button_data raw 12 = Some b12"
    "button_data raw 6 = Some b6" and "a_callback_callable self"
  shows "callback_wrapper self raw =
     (if Some (derived_state a5 a4 a0 b0 (derived_reverse b11 b12 (a_reverse self)) b6)
           = a_last_controller_state self
      then (self\<lparr>a_reverse := derived_reverse b11 b12 (a_reverse self)\<rparr>, Inr None)
      else (self\<lparr>a_reverse := derived_reverse b11 b12 (a_reverse self),
                  a_last_controller_state :=
                    Some (derived_state a5 a4 a0 b0 (derived_reverse b11 b12 (a_reverse self)) b6)\<rparr>,
            Inr (Some (derived_state a5 a4 a0 b0 (derived_reverse b11 b12 (a_reverse self)) b6))))"
  using assms(8) by (simp add: callback_wrapper_def handle_callback_present [OF assms(1-7)])

lemma handle_callback_Inr_eq:
  assumes "handle_callback self raw = (self', Inr cs)"
  obtains a5 a4 a0 b0 b11 b12 b6 where
    "axis_data raw 5 = Some a5" "axis_data raw 4 = Some a4" "axis_data raw 0 = Some a0"
    "button_data raw 0 = Some b0" "button_data raw 11 = Some b11" "button_data raw 12 = Some b12"
    "button_data raw 6 = Some b6" "a_callback_callable self"
    "self' = self\<lparr>a_reverse := derived_reverse b11 b12 (a_reverse self)\<rparr>"
    "cs = derived_state a5 a4 a0 b0 (derived_reverse b11 b12 (a_reverse self)) b6"
proof -
  from assms obtain a5 a4 a0 b0 b11 b12 b6 where k:
    "axis_data raw 5 = Some a5" "axis_data raw 4 = Some a4" "axis_data raw 0 = Some a0"
    "button_data raw 0 = Some b0" "button_data raw 11 = Some b11" "button_data raw 12 = Some b12"
    "button_data raw 6 = Some b6" and c: "a_callback_callable self"
    by (rule handle_callback_Inr)
  have "self' = self\<lparr>a_reverse := derived_reverse b11 b12 (a_reverse self)\<rparr>"
    and "cs = derived_state a5 a4 a0 b0 (derived_reverse b11 b12 (a_reverse self)) b6"
    using assms c by (simp_all add: handle_callback_present [OF k])
  with k c show thesis by (rule that)
qed

lemma handle_callback_handler_update:
  "handle_callback (self\<lparr>a_handler := h\<rparr>) raw
     = (fst (handle_callback self raw)\<lparr>a_handler := h\<rparr>, snd (handle_callback self raw))"
  by (simp add: handle_callback_def Let_def split: sum.splits)

lemma handle_callback_last:
  "a_last_controller_state (fst (handle_callback self raw)) = a_last_controller_state self"
  by (simp add: handle_callback_def Let_def split: sum.splits)

lemma store_event_keys:
  assumes "store_event ev h = Some h'" and "h_axis_data h k \<noteq> None"
  shows "h_axis_data h' k \<noteq> None"
  using assms by (cases ev) (auto simp: store_event_def)

lemma store_event_button_keys:
  assumes "store_event ev h = Some h'" and "h_button_data h k \<noteq> None"
  shows "h_button_data h' k \<noteq> None"
  using assms by (cases ev) (auto simp: store_event_def)

lemma store_event_keys_present:
  assumes "store_event ev h = Some h'" and "keys_present (raw_controller_state h)"
  shows "keys_present (raw_controller_state h')"
  using assms(2) store_event_keys [OF assms(1)] store_event_button_keys [OF assms(1)]
  by (simp add: keys_present_def raw_controller_state_def)

lemma keys_presentE:
  assumes "keys_present raw"
  obtains a5 a4 a0 b0 b11 b12 b6 where
    "axis_data raw 5 = Some a5" "axis_data raw 4 = Some a4" "axis_data raw 0 = Some a0"
    "button_data raw 0 = Some b0" "button_data raw 11 = Some b11" "button_data raw 12 = Some b12"
    "button_data raw 6 = Some b6"
  using assms by (auto simp: keys_present_def)

lemma handle_callback_keys_present:
  assumes "handle_callback self raw = (self', Inr cs)"
  shows "keys_present raw \<and> a_callback_callable self"
  using assms by (rule handle_callback_Inr) (simp add: keys_present_def)

lemma settledI:
  assumes "a_last_controller_state self = Some cs"
    and "handle_callback self (raw_controller_state (a_handler self)) = (self, Inr cs)"
  shows "settled self"
  using assms by (simp add: settled_def)

lemma settled_after_wrapper:
  assumes k: "keys_present (raw_controller_state h)" and c: "a_callback_callable self"
  shows "settled (fst (callback_wrapper (self\<lparr>a_handler := h\<rparr>) (raw_controller_state h)))"
proof -
  from k obtain a5 a4 a0 b0 b11 b12 b6 where ks:
    "axis_data (raw_controller_state h) 5 = Some a5" "axis_data (raw_controller_state h) 4 = Some a4"
    "axis_data (raw_controller_state h) 0 = Some a0"
    "button_data (raw_controller_state h) 0 = Some b0" "button_data (raw_controller_state h) 11 = Some b11"
    "button_data (raw_controller_state h) 12 = Some b12"
    "button_data (raw_controller_state h) 6 = Some b6"
    by (rule keys_presentE)
  have c': "a_callback_callable (self\<lparr>a_handler := h\<rparr>)" using c by simp
  define r where "r = derived_reverse b11 b12 (a_reverse self)"
  define cs where "cs = derived_state a5 a4 a0 b0 r b6"
  define res where "res = fst (callback_wrapper (self\<lparr>a_handler := h\<rparr>) (raw_controller_state h))"
  have res: "res = (if Some cs = a_last_controller_state self
                    then self\<lparr>a_handler := h, a_reverse := r\<rparr>
                    else self\<lparr>a_handler := h, a_reverse := r, a_last_controller_state := Some cs\<rparr>)"
    unfolding res_def callback_wrapper_present [OF ks c'] by (simp add: r_def cs_def)
  have last: "a_last_controller_state res = Some cs" by (simp add: res)
  have f: "a_handler res = h" "a_reverse res = r" "a_callback_callable res"
    using c by (simp_all add: res)
  have "handle_callback res (raw_controller_state h) = (res\<lparr>a_reverse := r\<rparr>, Inr cs)"
    by (simp add: handle_callback_present [OF ks] f r_def [symmetric] cs_def) (simp add: r_def derived_reverse_idem)
  moreover have "res\<lparr>a_reverse := r\<rparr> = res" using f(2) by (cases res) simp
  ultimately have "handle_callback res (raw_controller_state (a_handler res)) = (res, Inr cs)"
    by (simp add: f)
  with last show ?thesis unfolding res_def [symmetric] by (rule settledI)
qed

lemma settled_step:
  assumes "settled self"
  shows "settled (fst (adapter_handle_event ev self))"
proof (cases "store_event ev (a_handler self)")
  case None
  then show ?thesis using assms by (simp add: adapter_handle_event_def)
next
  case (Some h)
  show ?thesis
  proof (cases "a_last_controller_state self")
    case last: (Some cs0)
    with assms have "handle_callback self (raw_controller_state (a_handler self)) = (self, Inr cs0)"
      by (simp add: settled_def)
    then have "keys_present (raw_controller_state (a_handler self))" and c: "a_callback_callable self"
      by (simp_all add: handle_callback_keys_present)
    then have "keys_present (raw_controller_state h)"
      using Some by (simp add: store_event_keys_present)
    then show ?thesis using c by (simp add: adapter_handle_event_def Some settled_after_wrapper)
  next
    case None
    show ?thesis
    proof (cases "keys_present (raw_controller_state h) \<and> a_callback_callable self")
      case True
      then show ?thesis by (simp add: adapter_handle_event_def Some settled_after_wrapper)
    next
      case False
      obtain s r where hc: "handle_callback (self\<lparr>a_handler := h\<rparr>) (raw_controller_state h) = (s, r)"
        by (cases "handle_callback (self\<lparr>a_handler := h\<rparr>) (raw_controller_state h)")
      have "\<exists>e. r = Inl e"
      proof (cases r)
        case (Inr cs)
        with hc have "keys_present (raw_controller_state h) \<and> a_callback_callable (self\<lparr>a_handler := h\<rparr>)"
          by (simp add: handle_callback_keys_present)
        with False show ?thesis by simp
      qed simp
      then obtain e where r: "r = Inl e" ..
      have "a_last_controller_state s = None"
        using handle_callback_last [of "self\<lparr>a_handler := h\<rparr>" "raw_controller_state h"] hc None
        by simp
      then show ?thesis
        by (simp add: adapter_handle_event_def Some callback_wrapper_def hc r settled_def)
    qed
  qed
qed

lemma settled_init: "settled (GamepadAdapter_init numaxes numbuttons numhats callable)"
  by (simp add: settled_def GamepadAdapter_init_def)

lemma settled_after_events: "settled self \<Longrightarrow> settled (after_events self evs)"
proof (induction evs arbitrary: self)
  case Nil
  then show ?case by (simp add: after_events_def)
next
  case (Cons ev evs)
  from Cons.prems have "settled (fst (adapter_handle_event ev self))" by (rule settled_step)
  then have "settled (after_events (fst (adapter_handle_event ev self)) evs)" by (rule Cons.IH)
  then show ?case by (simp add: after_events_def)
qed

lemma handle_callback_absent:
  assumes "\<not> keys_present raw"
  shows "snd (handle_callback self raw) = Inl KeyError"
proof (cases "handle_callback self raw")
  case (Pair s r)
  show ?thesis
  proof (cases r)
    case (Inr cs)
    with Pair have "keys_present raw" by (simp add: handle_callback_keys_present)
    with assms show ?thesis by simp
  next
    case (Inl e)
    have "e = KeyError"
    proof (rule ccontr)
      assume "e \<noteq> KeyError"
      with Pair Inl have "keys_present raw"
        by (auto simp: handle_callback_def getitem_def Let_def keys_present_def
              split: option.splits if_splits)
      with assms show False by simp
    qed
    with Pair Inl show ?thesis by simp
  qed
qed

lemma handle_callback_hat_independent:
  assumes "axis_data r1 = axis_data r2" and "button_data r1 = button_data r2"
    and "a_reverse s1 = a_reverse s2" and "a_callback_callable s1 = a_callback_callable s2"
  shows "snd (handle_callback s1 r1) = snd (handle_callback s2 r2)"
proof (cases "keys_present r1")
  case True
  then obtain a5 a4 a0 b0 b11 b12 b6 where k1:
    "axis_data r1 5 = Some a5" "axis_data r1 4 = Some a4" "axis_data r1 0 = Some a0"
    "button_data r1 0 = Some b0" "button_data r1 11 = Some b11" "button_data r1 12 = Some b12"
    "button_data r1 6 = Some b6"
    by (rule keys_presentE)
  then have k2:
    "axis_data r2 5 = Some a5" "axis_data r2 4 = Some a4" "axis_data r2 0 = Some a0"
    "button_data r2 0 = Some b0" "button_data r2 11 = Some b11" "button_data r2 12 = Some b12"
    "button_data r2 6 = Some b6"
    using assms(1,2) by simp_all
  show ?thesis
    by (simp add: handle_callback_present [OF k1] handle_callback_present [OF k2] assms(3,4))
next
  case False
  then have "\<not> keys_present r2" using assms(1,2) by (simp add: keys_present_def)
  with False show ?thesis by (simp add: handle_callback_absent)
qed

lemma hat_event_discarded:
  assumes s: "settled self" and l: "a_last_controller_state self = Some cs"
  shows "adapter_handle_event (JOYHATMOTION hat v) self
           = (self\<lparr>a_handler := (a_handler self)\<lparr>h_hat_data := (h_hat_data (a_handler self))(hat \<mapsto> v)\<rparr>\<rparr>,
              Inr None)"
proof -
  define h where "h = (a_handler self)\<lparr>h_hat_data := (h_hat_data (a_handler self))(hat \<mapsto> v)\<rparr>"
  define raw where "raw = raw_controller_state (a_handler self)"
  have st: "store_event (JOYHATMOTION hat v) (a_handler self) = Some h"
    by (simp add: store_event_def h_def)
  from s l have d: "handle_callback self raw = (self, Inr cs)"
    by (simp add: settled_def raw_def)
  from d obtain a5 a4 a0 b0 b11 b12 b6 where k:
    "axis_data raw 5 = Some a5" "axis_data raw 4 = Some a4" "axis_data raw 0 = Some a0"
    "button_data raw 0 = Some b0" "button_data raw 11 = Some b11" "button_data raw 12 = Some b12"
    "button_data raw 6 = Some b6" and c: "a_callback_callable self"
    and self: "self = self\<lparr>a_reverse := derived_reverse b11 b12 (a_reverse self)\<rparr>"
    and cs: "cs = derived_state a5 a4 a0 b0 (derived_reverse b11 b12 (a_reverse self)) b6"
    by (rule handle_callback_Inr_eq)
  have e1: "a_reverse (self\<lparr>a_reverse := derived_reverse b11 b12 (a_reverse self)\<rparr>)
              = derived_reverse b11 b12 (a_reverse self)" by simp
  have e2: "a_reverse (self\<lparr>a_reverse := derived_reverse b11 b12 (a_reverse self)\<rparr>) = a_reverse self"
    by (rule arg_cong [OF self, symmetric])
  note r = trans [OF e1 [symmetric] e2]
  have eq: "axis_data (raw_controller_state h) = axis_data raw"
    "button_data (raw_controller_state h) = button_data raw"
    by (simp_all add: raw_controller_state_def h_def raw_def)
  have k': "axis_data (raw_controller_state h) 5 = Some a5" "axis_data (raw_controller_state h) 4 = Some a4"
    "axis_data (raw_controller_state h) 0 = Some a0"
    "button_data (raw_controller_state h) 0 = Some b0" "button_data (raw_controller_state h) 11 = Some b11"
    "button_data (raw_controller_state h) 12 = Some b12"
    "button_data (raw_controller_state h) 6 = Some b6"
    using k by (simp_all only: eq)
  have c': "a_callback_callable (self\<lparr>a_handler := h\<rparr>)" using c by simp
  have "callback_wrapper (self\<lparr>a_handler := h\<rparr>) (raw_controller_state h)
          = (self\<lparr>a_handler := h\<rparr>, Inr None)"
    unfolding callback_wrapper_present [OF k' c'] using l by (simp add: r cs)
  then show ?thesis by (simp add: adapter_handle_event_def st h_def [symmetric])
qed

section \<open>Deduplication of consecutive updates\<close>

text \<open>
  Claim C6, amended. Of two consecutive raw updates that derive the same control state,
  the second is always discarded: no callback, and the last emitted state stays that
  state. The first calls the callback, and records the state, exactly when the state
  differs from the one emitted last before it, as on a new adapter; otherwise it is
  discarded as well. So the pair calls the callback at most once.
\<close>

theorem dedup_second_discarded:
  assumes d1: "handle_callback self raw1 = (s1, Inr cs)"
    and w1: "callback_wrapper self raw1 = (self1, out1)"
    and d2: "handle_callback (self1\<lparr>a_handler := h\<rparr>) raw2 = (s2, Inr cs)"
    and w2: "callback_wrapper (self1\<lparr>a_handler := h\<rparr>) raw2 = (self2, out2)"
  shows "out2 = Inr None
         \<and> a_last_controller_state self1 = Some cs
         \<and> a_last_controller_state self2 = Some cs
         \<and> out1 = (if a_last_controller_state self = Some cs then Inr None else Inr (Some cs))"
proof -
  from d1 obtain a5 a4 a0 b0 b11 b12 b6 where k:
    "axis_data raw1 5 = Some a5" "axis_data raw1 4 = Some a4" "axis_data raw1 0 = Some a0"
    "button_data raw1 0 = Some b0" "button_data raw1 11 = Some b11" "button_data raw1 12 = Some b12"
    "button_data raw1 6 = Some b6" and c: "a_callback_callable self"
    and cs: "cs = derived_state a5 a4 a0 b0 (derived_reverse b11 b12 (a_reverse self)) b6"
    by (rule handle_callback_Inr_eq)
  have l1: "a_last_controller_state self1 = Some cs"
    and o1: "out1 = (if a_last_controller_state self = Some cs then Inr None else Inr (Some cs))"
    using w1 unfolding callback_wrapper_present [OF k c] cs [symmetric]
    by (auto split: if_splits)
  from d2 obtain a5' a4' a0' b0' b11' b12' b6' where k':
    "axis_data raw2 5 = Some a5'" "axis_data raw2 4 = Some a4'" "axis_data raw2 0 = Some a0'"
    "button_data raw2 0 = Some b0'" "button_data raw2 11 = Some b11'"
    "button_data raw2 12 = Some b12'" "button_data raw2 6 = Some b6'"
    and c': "a_callback_callable (self1\<lparr>a_handler := h\<rparr>)"
    and cs': "cs = derived_state a5' a4' a0' b0' (derived_reverse b11' b12' (a_reverse (self1\<lparr>a_handler := h\<rparr>))) b6'"
    by (rule handle_callback_Inr_eq)
  have "out2 = Inr None" and "a_last_controller_state self2 = Some cs"
    using w2 l1 unfolding callback_wrapper_present [OF k' c'] cs' [symmetric]
    by (auto split: if_splits)
  with l1 o1 show ?thesis by simp
qed


theorem dedup_second_discarded_witness:
  "handle_callback example_adapter (raw_controller_state example_handler)
     = (example_adapter, Inr neutral_state)
   \<and> callback_wrapper example_adapter (raw_controller_state example_handler)
     = (example_adapter\<lparr>a_last_controller_state := Some neutral_state\<rparr>, Inr (Some neutral_state))
   \<and> handle_callback (example_adapter\<lparr>a_last_controller_state := Some neutral_state,
                                       a_handler := example_handler\<rparr>)
        (raw_controller_state example_handler)
     = (example_adapter\<lparr>a_last_controller_state := Some neutral_state\<rparr>, Inr neutral_state)
   \<and> callback_wrapper (example_adapter\<lparr>a_last_controller_state := Some neutral_state,
                                        a_handler := example_handler\<rparr>)
        (raw_controller_state example_handler)
     = (example_adapter\<lparr>a_last_controller_state := Some neutral_state\<rparr>, Inr None)
   \<and> a_last_controller_state example_adapter \<noteq> Some neutral_state"
proof -
  have 1: "handle_callback example_adapter (raw_controller_state example_handler)
     = (example_adapter, Inr neutral_state)"
    by (simp add: eval_defs)
  have 2: "callback_wrapper example_adapter (raw_controller_state example_handler)
     = (example_adapter\<lparr>a_last_controller_state := Some neutral_state\<rparr>, Inr (Some neutral_state))"
    by (simp add: eval_defs)
  have 3: "handle_callback (example_adapter\<lparr>a_last_controller_state := Some neutral_state,
                                       a_handler := example_handler\<rparr>)
        (raw_controller_state example_handler)
     = (example_adapter\<lparr>a_last_controller_state := Some neutral_state\<rparr>, Inr neutral_state)"
    by (simp add: eval_defs)
  obtain self2 out2 where 4: "callback_wrapper (example_adapter\<lparr>a_last_controller_state := Some neutral_state,
                                        a_handler := example_handler\<rparr>)
        (raw_controller_state example_handler) = (self2, out2)"
    by (cases "callback_wrapper (example_adapter\<lparr>a_last_controller_state := Some neutral_state,
                                        a_handler := example_handler\<rparr>)
        (raw_controller_state example_handler)")
  have "out2 = Inr None" using dedup_second_discarded [OF 1 2 3 4] by simp
  moreover have "self2 = example_adapter\<lparr>a_last_controller_state := Some neutral_state\<rparr>"
    using 4 by (simp add: eval_defs)
  ultimately show ?thesis using 1 2 3 4 by (simp add: GamepadAdapter_init_def)
qed

text \<open>
  Claim C6 as stated (every such pair calls the callback exactly once, the first update
  firing it) fails. Three axis events whose values round to the same two decimals arrive
  at a new adapter: the first emits the neutral state, and the second and the third,
  a pair of consecutive updates deriving that same state, both return without a callback.
\<close>

theorem dedup_pair_counterexample:
  "adapter_handle_event (JOYAXISMOTION 0 0.001) example_adapter
     = (example_adapter\<lparr>a_handler := centred_handler,
                         a_last_controller_state := Some neutral_state\<rparr>,
        Inr (Some neutral_state))
   \<and> handle_callback
         (example_adapter\<lparr>a_handler := centred_handler,
                          a_last_controller_state := Some neutral_state\<rparr>)
         (raw_controller_state centred_handler)
     = (example_adapter\<lparr>a_handler := centred_handler,
                         a_last_controller_state := Some neutral_state\<rparr>,
        Inr neutral_state)
   \<and> adapter_handle_event (JOYAXISMOTION 0 0.002)
         (example_adapter\<lparr>a_handler := centred_handler,
                          a_last_controller_state := Some neutral_state\<rparr>)
     = (example_adapter\<lparr>a_handler := centred_handler,
                         a_last_controller_state := Some neutral_state\<rparr>,
        Inr None)
   \<and> adapter_handle_event (JOYAXISMOTION 0 0.003)
         (example_adapter\<lparr>a_handler := centred_handler,
                          a_last_controller_state := Some neutral_state\<rparr>)
     = (example_adapter\<lparr>a_handler := centred_handler,
                         a_last_controller_state := Some neutral_state\<rparr>,
        Inr None)"
  by (simp add: eval_defs)

section \<open>Hat data\<close>

text \<open>
  Claim C10. The derivation does not read the hat data: two raw states with the same
  axis and button entries, derived with the same sticky reverse (and the same callback),
  give the same result, whatever their hat data. And once the adapter has emitted a
  state, after any sequence of events on a new adapter, a hat motion never calls the
  callback: the state it derives is the one emitted last, and it is discarded.
\<close>

theorem hat_data_never_emits:
  "(axis_data r1 = axis_data r2 \<and> button_data r1 = button_data r2
      \<and> a_reverse s1 = a_reverse s2 \<and> a_callback_callable s1 = a_callback_callable s2
      \<longrightarrow> snd (handle_callback s1 r1) = snd (handle_callback s2 r2))
   \<and> (a_last_controller_state (after_events (GamepadAdapter_init numaxes numbuttons numhats callable) evs)
         \<noteq> None
      \<longrightarrow> snd (adapter_handle_event (JOYHATMOTION hat v)
                 (after_events (GamepadAdapter_init numaxes numbuttons numhats callable) evs))
            = Inr None)"
proof (intro conjI impI)
  assume "axis_data r1 = axis_data r2 \<and> button_data r1 = button_data r2
      \<and> a_reverse s1 = a_reverse s2 \<and> a_callback_callable s1 = a_callback_callable s2"
  then show "snd (handle_callback s1 r1) = snd (handle_callback s2 r2)"
    by (intro handle_callback_hat_independent) simp_all
next
  let ?a = "after_events (GamepadAdapter_init numaxes numbuttons numhats callable) evs"
  assume "a_last_controller_state ?a \<noteq> None"
  then obtain cs where l: "a_last_controller_state ?a = Some cs" by auto
  have "settled ?a" by (rule settled_after_events) (rule settled_init)
  then show "snd (adapter_handle_event (JOYHATMOTION hat v) ?a) = Inr None"
    using l by (simp only: hat_event_discarded snd_conv)
qed

theorem hat_data_never_emits_witness:
  "axis_data (raw_controller_state example_handler)
     = axis_data (raw_controller_state (example_handler\<lparr>h_hat_data := (h_hat_data example_handler)(0 \<mapsto> (1, 0))\<rparr>))
   \<and> button_data (raw_controller_state example_handler)
     = button_data (raw_controller_state (example_handler\<lparr>h_hat_data := (h_hat_data example_handler)(0 \<mapsto> (1, 0))\<rparr>))
   \<and> snd (handle_callback example_adapter (raw_controller_state example_handler))
     = snd (handle_callback example_adapter
         (raw_controller_state (example_handler\<lparr>h_hat_data := (h_hat_data example_handler)(0 \<mapsto> (1, 0))\<rparr>)))
   \<and> a_last_controller_state (after_events example_adapter [JOYBUTTONDOWN 12]) \<noteq> None
   \<and> snd (adapter_handle_event (JOYHATMOTION 0 (1, 0)) (after_events example_adapter [JOYBUTTONDOWN 12]))
     = Inr None"
proof -
  have l: "a_last_controller_state (after_events example_adapter [JOYBUTTONDOWN 12]) \<noteq> None"
    by (simp add: after_events_def eval_defs)
  have a: "axis_data (raw_controller_state example_handler)
     = axis_data (raw_controller_state (example_handler\<lparr>h_hat_data := (h_hat_data example_handler)(0 \<mapsto> (1, 0))\<rparr>))"
   and b: "button_data (raw_controller_state example_handler)
     = button_data (raw_controller_state (example_handler\<lparr>h_hat_data := (h_hat_data example_handler)(0 \<mapsto> (1, 0))\<rparr>))"
    by (simp_all add: raw_controller_state_def)
  show ?thesis
    using hat_data_never_emits [where ?r1.0 = "raw_controller_state example_handler"
        and ?r2.0 = "raw_controller_state (example_handler\<lparr>h_hat_data := (h_hat_data example_handler)(0 \<mapsto> (1, 0))\<rparr>)"
        and ?s1.0 = example_adapter and ?s2.0 = example_adapter
        and numaxes = 6 and numbuttons = 13 and numhats = 1 and callable = True
        and evs = "[JOYBUTTONDOWN 12]" and hat = 0 and v = "(1, 0)"] l a b
    by blast
qed

section \<open>The ticks of the publisher\<close>

lemma work_None:
  "p_controller_state self = None \<Longrightarrow> work dumps r self = (self, None)"
  by (simp add: work_def)

lemma work_Some:
  "p_controller_state self = Some cs \<Longrightarrow>
   work dumps r self =
     (self\<lparr>p_sender := (p_sender self)\<lparr>datagrams := datagrams (p_sender self)
          @ [(serialize_controller_state dumps cs, (p_host self, p_port self))]\<rparr>\<rparr>,
      if r = Some Empty then None else r)"
  by (cases r) (auto simp: work_def send_datagram_def)

lemma after_ticks_None:
  "p_controller_state self = None \<Longrightarrow> after_ticks dumps self rs = self"
  by (induction rs arbitrary: self) (simp_all add: after_ticks_def work_None)

lemma after_ticks_Some:
  "p_controller_state self = Some cs \<Longrightarrow>
   after_ticks dumps self rs =
     self\<lparr>p_sender := (p_sender self)\<lparr>datagrams := datagrams (p_sender self)
          @ replicate (length rs) (serialize_controller_state dumps cs, (p_host self, p_port self))\<rparr>\<rparr>"
proof (induction rs arbitrary: self)
  case Nil
  then show ?case by (simp add: after_ticks_def)
next
  case (Cons r rs)
  let ?s = "fst (work dumps r self)"
  have s: "?s = self\<lparr>p_sender := (p_sender self)\<lparr>datagrams := datagrams (p_sender self)
          @ [(serialize_controller_state dumps cs, (p_host self, p_port self))]\<rparr>\<rparr>"
    using Cons.prems by (simp add: work_Some)
  then have "p_controller_state ?s = Some cs" using Cons.prems by simp
  from Cons.IH [OF this] have "after_ticks dumps ?s rs = ?s\<lparr>p_sender := (p_sender ?s)\<lparr>datagrams := datagrams (p_sender ?s)
          @ replicate (length rs) (serialize_controller_state dumps cs, (p_host ?s, p_port ?s))\<rparr>\<rparr>" .
  moreover have "after_ticks dumps self (r # rs) = after_ticks dumps ?s rs"
    by (simp add: after_ticks_def)
  ultimately show ?case by (simp add: s replicate_app_Cons_same)
qed

lemma init_keys_present:
  assumes "6 \<le> numaxes" and "13 \<le> numbuttons"
  shows "keys_present (raw_controller_state (ControllerEventHandler_init numaxes numbuttons numhats))"
  using assms by (simp add: keys_present_def raw_controller_state_def ControllerEventHandler_init_def)

lemma first_event_emits:
  assumes "6 \<le> numaxes" and "13 \<le> numbuttons" and "ev \<noteq> OTHER"
  shows "\<exists>cs. snd (adapter_handle_event ev (GamepadAdapter_init numaxes numbuttons numhats True))
                = Inr (Some cs)"
proof -
  let ?a = "GamepadAdapter_init numaxes numbuttons numhats True"
  from assms(3) obtain h where st: "store_event ev (a_handler ?a) = Some h"
    by (cases ev) (simp_all add: store_event_def)
  have "keys_present (raw_controller_state (a_handler ?a))"
    using assms(1,2) by (simp add: GamepadAdapter_init_def init_keys_present)
  with st have "keys_present (raw_controller_state h)" by (rule store_event_keys_present)
  then obtain a5 a4 a0 b0 b11 b12 b6 where k:
    "axis_data (raw_controller_state h) 5 = Some a5" "axis_data (raw_controller_state h) 4 = Some a4"
    "axis_data (raw_controller_state h) 0 = Some a0"
    "button_data (raw_controller_state h) 0 = Some b0" "button_data (raw_controller_state h) 11 = Some b11"
    "button_data (raw_controller_state h) 12 = Some b12"
    "button_data (raw_controller_state h) 6 = Some b6"
    by (rule keys_presentE)
  have c: "a_callback_callable (?a\<lparr>a_handler := h\<rparr>)" by (simp add: GamepadAdapter_init_def)
  have l: "a_last_controller_state (?a\<lparr>a_handler := h\<rparr>) = None" by (simp add: GamepadAdapter_init_def)
  show ?thesis
    unfolding adapter_handle_event_def st option.case callback_wrapper_present [OF k c] l
    by simp
qed

lemma handle_event_emitted:
  assumes "snd (adapter_handle_event ev (p_gamepad_controller self)) = Inr (Some cs)"
  shows "fst (handle_event ev self)
           = self\<lparr>p_gamepad_controller := fst (adapter_handle_event ev (p_gamepad_controller self)),
                  p_controller_state := Some cs\<rparr>"
  using assms
  by (cases "adapter_handle_event ev (p_gamepad_controller self)")
     (simp add: handle_event_def set_controller_state_def)

text \<open>
  Claim C7. A tick with no control state set sends nothing and changes nothing. A tick
  with a state set hands the sender exactly one datagram, the serialization of that
  state addressed to the configured host and port, and changes nothing else; the state
  is the one set last. So the ticks of a new publisher send nothing as long as no event
  arrived, and after an event that made the adapter emit a state every tick sends that
  state; on a joystick with the axes and buttons the derivation reads, the first
  joystick event does.
\<close>

theorem tick_publishes_latest_state:
  "work dumps r (self\<lparr>p_controller_state := None\<rparr>) = (self\<lparr>p_controller_state := None\<rparr>, None)
   \<and> fst (work dumps r (self\<lparr>p_controller_state := Some cs\<rparr>))
       = self\<lparr>p_controller_state := Some cs,
              p_sender := (p_sender self)\<lparr>datagrams := datagrams (p_sender self)
                @ [(serialize_controller_state dumps cs, (p_host self, p_port self))]\<rparr>\<rparr>
   \<and> datagrams (p_sender (fst (work dumps r
         (set_controller_state (set_controller_state self (Some cs1)) (Some cs2)))))
       = datagrams (p_sender self) @ [(serialize_controller_state dumps cs2, (p_host self, p_port self))]
   \<and> after_ticks dumps (GamepadController_init sender host port numaxes numbuttons numhats) rs
       = GamepadController_init sender host port numaxes numbuttons numhats
   \<and> (snd (adapter_handle_event ev (p_gamepad_controller self)) = Inr (Some cs) \<longrightarrow>
         p_controller_state (fst (handle_event ev self)) = Some cs
         \<and> datagrams (p_sender (after_ticks dumps (fst (handle_event ev self)) rs))
             = datagrams (p_sender self)
               @ replicate (length rs) (serialize_controller_state dumps cs, (p_host self, p_port self)))
   \<and> (6 \<le> numaxes \<and> 13 \<le> numbuttons \<and> ev \<noteq> OTHER \<longrightarrow>
         (\<exists>cs'. snd (adapter_handle_event ev
                   (p_gamepad_controller (GamepadController_init sender host port numaxes numbuttons numhats)))
                 = Inr (Some cs')))"
proof (intro conjI impI)
  show "work dumps r (self\<lparr>p_controller_state := None\<rparr>) = (self\<lparr>p_controller_state := None\<rparr>, None)"
    by (simp add: work_None)
  show "fst (work dumps r (self\<lparr>p_controller_state := Some cs\<rparr>))
       = self\<lparr>p_controller_state := Some cs,
              p_sender := (p_sender self)\<lparr>datagrams := datagrams (p_sender self)
                @ [(serialize_controller_state dumps cs, (p_host self, p_port self))]\<rparr>\<rparr>"
    by (simp add: work_Some [of _ cs])
  show "datagrams (p_sender (fst (work dumps r
         (set_controller_state (set_controller_state self (Some cs1)) (Some cs2)))))
       = datagrams (p_sender self) @ [(serialize_controller_state dumps cs2, (p_host self, p_port self))]"
    by (simp add: work_Some [of _ cs2] set_controller_state_def)
  show "after_ticks dumps (GamepadController_init sender host port numaxes numbuttons numhats) rs
       = GamepadController_init sender host port numaxes numbuttons numhats"
    by (rule after_ticks_None) (simp add: GamepadController_init_def)
next
  assume e: "snd (adapter_handle_event ev (p_gamepad_controller self)) = Inr (Some cs)"
  note s = handle_event_emitted [OF e]
  show "p_controller_state (fst (handle_event ev self)) = Some cs" by (simp add: s)
  then show "datagrams (p_sender (after_ticks dumps (fst (handle_event ev self)) rs))
             = datagrams (p_sender self)
               @ replicate (length rs) (serialize_controller_state dumps cs, (p_host self, p_port self))"
    by (simp add: after_ticks_Some [of _ cs]) (simp add: s)
next
  assume "6 \<le> numaxes \<and> 13 \<le> numbuttons \<and> ev \<noteq> OTHER"
  then show "\<exists>cs'. snd (adapter_handle_event ev
                   (p_gamepad_controller (GamepadController_init sender host port numaxes numbuttons numhats)))
                 = Inr (Some cs')"
    by (simp add: GamepadController_init_def first_event_emits)
qed

theorem tick_publishes_latest_state_witness:
  "(6::int) \<le> 6 \<and> (13::int) \<le> 13 \<and> JOYBUTTONDOWN 0 \<noteq> OTHER
   \<and> snd (adapter_handle_event (JOYBUTTONDOWN 0) (p_gamepad_controller example_publisher))
       = Inr (Some (neutral_state\<lparr>hand_brake := True\<rparr>))
   \<and> p_controller_state (fst (handle_event (JOYBUTTONDOWN 0) example_publisher))
       = Some (neutral_state\<lparr>hand_brake := True\<rparr>)
   \<and> datagrams (p_sender (after_ticks (\<lambda>d. ''{}'')
         (fst (handle_event (JOYBUTTONDOWN 0) example_publisher)) [None, Some Full]))
       = [(''{}'', (''10.0.0.2'', 13337)), (''{}'', (''10.0.0.2'', 13337))]"
proof -
  have e: "snd (adapter_handle_event (JOYBUTTONDOWN 0) (p_gamepad_controller example_publisher))
       = Inr (Some (neutral_state\<lparr>hand_brake := True\<rparr>))"
    by (simp add: eval_defs GamepadController_init_def)
  show ?thesis
    using tick_publishes_latest_state [where self = example_publisher and ev = "JOYBUTTONDOWN 0"
        and cs = "neutral_state\<lparr>hand_brake := True\<rparr>" and dumps = "\<lambda>d. ''{}''"
        and rs = "[None, Some Full]" and numaxes = 6 and numbuttons = 13] e
    by (simp add: GamepadController_init_def serialize_controller_state_def)
qed

section \<open>A full sender queue during a tick\<close>

text \<open>
  Claim C2 says that a queue-full error of the sender's enqueue step during a tick is
  caught and ignored. In the code the handler of \<open>_work\<close> names \<open>Empty\<close>, so a
  \<open>Full\<close> raised by \<open>send_datagram\<close> leaves \<open>_work\<close>; only \<open>Empty\<close> is swallowed.
  The send stage of the frame relay wraps the same call in \<open>except Full\<close> and does
  swallow it.
\<close>

theorem work_lets_Full_escape:
  "work dumps (Some Full) (self\<lparr>p_controller_state := Some cs\<rparr>)
     = (self\<lparr>p_controller_state := Some cs,
             p_sender := (p_sender self)\<lparr>datagrams := datagrams (p_sender self)
               @ [(serialize_controller_state dumps cs, (p_host self, p_port self))]\<rparr>\<rparr>,
        Some Full)
   \<and> snd (work dumps (Some Empty) (self\<lparr>p_controller_state := Some cs\<rparr>)) = None
   \<and> snd (send_webp_bytes (Some Full) sender webp_bytes address) = None"
  by (simp add: work_def send_datagram_def send_webp_bytes_def)

section \<open>The wire record of a control state\<close>

lemma map_of_asdict:
  "map (map_of (asdict s)) field_names = map Some (astuple s)"
  by (simp add: asdict_def field_names_def astuple_def)

lemma keys_asdict: "dom (map_of (asdict s)) = set field_names"
  by (auto simp: asdict_def field_names_def split: if_splits)

lemma those_map_Some: "those (map Some xs) = Some xs"
  by (induction xs) simp_all

lemma new_ControllerState_asdict:
  assumes "map_of d = map_of (asdict s)"
  shows "new_ControllerState d = Inr (astuple s)"
proof -
  have "fst ` set d = dom (map_of d)" by (simp add: dom_map_of_conv_image_fst)
  then have "set (map fst d) = set field_names" by (simp add: assms keys_asdict)
  then have "list_all (\<lambda>k. k \<in> set field_names) (map fst d)"
    by (simp add: list_all_iff)
  moreover have "those (map (map_of d) field_names) = Some (astuple s)"
    by (simp only: assms map_of_asdict those_map_Some)
  ultimately show ?thesis by (simp add: new_ControllerState_def)
qed

lemma astuple_inj: "astuple s = astuple s' \<longleftrightarrow> s = s'"
  by (cases s; cases s') (auto simp: astuple_def)

text \<open>
  Claim C3. For every control state \<open>s\<close>, deserializing the serialization of \<open>s\<close> gives
  the named tuple of \<open>s\<close>, and a control state with that tuple is \<open>s\<close>. The two library
  calls are parameters: \<open>json.dumps\<close> returns a string, and \<open>json.loads\<close> reads the text
  it wrote for the dictionary of \<open>s\<close> back to a dictionary with the same entries, in any
  order.
\<close>

theorem serialize_deserialize_round_trip:
  assumes "utf8_valid (map of_char (dumps (asdict s)))"
    and "loads (dumps (asdict s)) = Inr (JObject d)"
    and "map_of d = map_of (asdict s)"
  shows "deserialize_controller_state loads (serialize_controller_state dumps s) = Inr (astuple s)
         \<and> (\<forall>s'. astuple s' = astuple s \<longrightarrow> s' = s)"
  using assms
  by (simp add: deserialize_controller_state_def serialize_controller_state_def decode_utf8_def
        new_ControllerState_asdict astuple_inj)

theorem serialize_deserialize_round_trip_witness:
  "utf8_valid (map of_char ((\<lambda>d. ''{}'') (asdict neutral_state)))
   \<and> (\<lambda>t. Inr (JObject (rev (asdict neutral_state)))) ((\<lambda>d. ''{}'') (asdict neutral_state))
       = (Inr (JObject (rev (asdict neutral_state))) :: exn + json)
   \<and> map_of (rev (asdict neutral_state)) = map_of (asdict neutral_state)
   \<and> deserialize_controller_state (\<lambda>t. Inr (JObject (rev (asdict neutral_state))))
         (serialize_controller_state (\<lambda>d. ''{}'') neutral_state)
       = Inr [JFloat 0, JFloat 0, JFloat 0, JBool False, JBool False, JBool False]"
proof -
  have v: "utf8_valid (map of_char ((\<lambda>d. ''{}'') (asdict neutral_state)))"
    by simp
  have m: "map_of (rev (asdict neutral_state)) = map_of (asdict neutral_state)"
    by (rule ext) (simp add: asdict_def)
  show ?thesis
    using serialize_deserialize_round_trip [where dumps = "\<lambda>d. ''{}''"
        and loads = "\<lambda>t. Inr (JObject (rev (asdict neutral_state)))"
        and s = neutral_state and d = "rev (asdict neutral_state)", OF v _ m] v m
    by (simp add: astuple_def)
qed

end
